theory Spec2Isabelle
  imports Complex_Main
begin

section \<open>JavaScript numbers\<close>

text \<open>
  The dashboard computes with JavaScript numbers, which are IEEE-754 doubles. A number is
  a real, or one of the three special values \<open>Infinity\<close>, \<open>-Infinity\<close> and \<open>NaN\<close>. The
  operations \<open>jsadd\<close>, \<open>jsdiv\<close> and \<open>jsmul\<close> below give the infinitely precise result;
  \<open>to_double\<close> rounds such a result to the nearest double, and \<open>fadd\<close> and \<open>fdiv\<close> are
  the rounded operations. The moving average, which runs on the series supplied to it, is
  modelled with the rounded operations; the portfolio and backtest views, which compute
  on the literals of the source, with the precise ones. The sign of zero is not modelled.
  Every literal of the source is a decimal fraction and is written as one.
\<close>

datatype jsnum = Fin real | PInf | NInf | NaN

text \<open>The operator \<open>/\<close>: a finite quotient, or by zero \<open>\<plusminus>Infinity\<close>, or \<open>NaN\<close> for \<open>0 / 0\<close>.\<close>

fun jsdiv :: "jsnum \<Rightarrow> jsnum \<Rightarrow> jsnum" where
  "jsdiv (Fin a) (Fin b) =
     (if b \<noteq> 0 then Fin (a / b)
      else if 0 < a then PInf
      else if a < 0 then NInf
      else NaN)"
| "jsdiv (Fin a) PInf = Fin 0"
| "jsdiv (Fin a) NInf = Fin 0"
| "jsdiv PInf (Fin b) = (if 0 \<le> b then PInf else NInf)"
| "jsdiv NInf (Fin b) = (if 0 \<le> b then NInf else PInf)"
| "jsdiv _ _ = NaN"

text \<open>The operator \<open>*\<close>.\<close>

fun jsmul :: "jsnum \<Rightarrow> jsnum \<Rightarrow> jsnum" where
  "jsmul (Fin a) (Fin b) = Fin (a * b)"
| "jsmul NaN _ = NaN"
| "jsmul _ NaN = NaN"
| "jsmul (Fin a) PInf = (if 0 < a then PInf else if a < 0 then NInf else NaN)"
| "jsmul (Fin a) NInf = (if 0 < a then NInf else if a < 0 then PInf else NaN)"
| "jsmul PInf (Fin b) = (if 0 < b then PInf else if b < 0 then NInf else NaN)"
| "jsmul NInf (Fin b) = (if 0 < b then NInf else if b < 0 then PInf else NaN)"
| "jsmul PInf PInf = PInf"
| "jsmul NInf NInf = PInf"
| "jsmul PInf NInf = NInf"
| "jsmul NInf PInf = NInf"

text \<open>\<open>Math.abs\<close>.\<close>

fun Math_abs :: "jsnum \<Rightarrow> jsnum" where
  "Math_abs (Fin a) = Fin \<bar>a\<bar>"
| "Math_abs PInf = PInf"
| "Math_abs NInf = PInf"
| "Math_abs NaN = NaN"

text \<open>\<open>Math.min\<close> of two numbers, and of a spread list: \<open>Math.min()\<close> is \<open>Infinity\<close>.\<close>

fun jsmin :: "jsnum \<Rightarrow> jsnum \<Rightarrow> jsnum" where
  "jsmin NaN _ = NaN"
| "jsmin _ NaN = NaN"
| "jsmin NInf _ = NInf"
| "jsmin _ NInf = NInf"
| "jsmin PInf y = y"
| "jsmin x PInf = x"
| "jsmin (Fin a) (Fin b) = Fin (min a b)"

definition Math_min :: "jsnum list \<Rightarrow> jsnum" where
  "Math_min xs = foldl jsmin PInf xs"

text \<open>
  A number is falsy when it is zero or \<open>NaN\<close>; \<open>a || b\<close> is \<open>a\<close> when \<open>a\<close> is truthy and
  \<open>b\<close> otherwise.
\<close>

fun truthy :: "jsnum \<Rightarrow> bool" where
  "truthy (Fin a) = (a \<noteq> 0)"
| "truthy PInf = True"
| "truthy NInf = True"
| "truthy NaN = False"

definition js_or :: "jsnum \<Rightarrow> jsnum \<Rightarrow> jsnum" where
  "js_or a b = (if truthy a then a else b)"

text \<open>The operator \<open>+\<close>, infinitely precise.\<close>

fun jsadd :: "jsnum \<Rightarrow> jsnum \<Rightarrow> jsnum" where
  "jsadd (Fin a) (Fin b) = Fin (a + b)"
| "jsadd NaN _ = NaN"
| "jsadd _ NaN = NaN"
| "jsadd PInf NInf = NaN"
| "jsadd NInf PInf = NaN"
| "jsadd PInf _ = PInf"
| "jsadd _ PInf = PInf"
| "jsadd NInf _ = NInf"
| "jsadd _ NInf = NInf"

subsection \<open>Double precision\<close>

text \<open>
  A finite double is \<open>m * 2 ^ e\<close> with an integer \<open>m\<close> of magnitude below \<open>2 ^ 53\<close> and
  \<open>-1074 \<le> e \<le> 971\<close>. \<open>ulp_exp a\<close> is the exponent of the last mantissa bit of the
  doubles of magnitude \<open>a\<close>: 52 below the binary exponent of \<open>a\<close>, and \<open>-1074\<close> for the
  subnormal numbers. \<open>fl\<close> rounds a real to the nearest double, a tie to the even
  mantissa (\<open>round_even\<close>); a result of magnitude \<open>2 ^ 1024\<close> or more, which is beyond the
  largest double, is an infinity.
\<close>

definition round_even :: "real \<Rightarrow> int" where
  "round_even q =
     (let f = \<lfloor>q\<rfloor>; r = q - of_int f
      in if r < 1 / 2 then f else if 1 / 2 < r then f + 1 else if even f then f else f + 1)"

definition ulp_exp :: "real \<Rightarrow> int" where
  "ulp_exp a = max (- 1074) (\<lfloor>log 2 a\<rfloor> - 52)"

definition fl :: "real \<Rightarrow> jsnum" where
  "fl x =
     (if x = 0 then Fin 0
      else
        let e = ulp_exp \<bar>x\<bar>;
            y = of_int (round_even (x / 2 powi e)) * 2 powi e
        in if 2 ^ 1024 \<le> \<bar>y\<bar> then (if 0 < x then PInf else NInf) else Fin y)"

fun to_double :: "jsnum \<Rightarrow> jsnum" where
  "to_double (Fin x) = fl x"
| "to_double PInf = PInf"
| "to_double NInf = NInf"
| "to_double NaN = NaN"

text \<open>The operators \<open>+\<close> and \<open>/\<close> on doubles: the precise result, rounded.\<close>

definition fadd :: "jsnum \<Rightarrow> jsnum \<Rightarrow> jsnum" where
  "fadd a b = to_double (jsadd a b)"

definition fdiv :: "jsnum \<Rightarrow> jsnum \<Rightarrow> jsnum" where
  "fdiv a b = to_double (jsdiv a b)"

text \<open>
  \<open>Array.prototype.slice(start, end)\<close>: a negative index counts from the end, both are
  clamped to the array, and an empty range gives the empty array.
\<close>

definition js_slice :: "'a list \<Rightarrow> int \<Rightarrow> int \<Rightarrow> 'a list" where
  "js_slice xs start end =
     (let len = int (length xs);
          k = (if start < 0 then max (len + start) 0 else min start len);
          final = (if end < 0 then max (len + end) 0 else min end len)
      in take (nat (final - k)) (drop (nat k) xs))"

section \<open>Chart: the moving average\<close>

text \<open>
  A bar of the historical series, as the chart reads it (\<open>Datetime\<close>, \<open>High\<close>, \<open>Low\<close>,
  \<open>Close\<close>, \<open>Volume\<close>; \<open>Open\<close> completes the OHLCV row). The object \<open>{ ...d, sma }\<close> is the
  bar extended by one field, \<open>sma\<close>, which is a number or \<open>null\<close> (\<open>None\<close>).
\<close>

record bar =
  Datetime :: string
  Open :: real
  High :: real
  Low :: real
  Close :: real
  Volume :: real

record bar_sma = bar +
  sma :: "jsnum option"

text \<open>
  \<^verbatim>\<open>
  const computeSMA = (data, period = 20) => {
    return data.map((d, i) => {
      if (i < period - 1) return { ...d, sma: null };
      const slice = data.slice(i - period + 1, i + 1);
      const sma = slice.reduce((sum, item) => sum + item.Close, 0) / period;
      return { ...d, sma };
    });
  };
  \<close>
  The period is an integral number and the closes are doubles; the sum and the quotient
  are computed in double precision. \<open>computeSMA_entry\<close> is the callback of \<open>map\<close>.
\<close>

definition computeSMA_entry :: "bar list \<Rightarrow> int \<Rightarrow> bar \<Rightarrow> nat \<Rightarrow> bar_sma" where
  "computeSMA_entry data period d i =
     (if int i < period - 1 then bar.extend d (bar_sma.fields None)
      else
        let slice = js_slice data (int i - period + 1) (int i + 1);
            sma = fdiv (foldl (\<lambda>sum item. fadd sum (Fin (Close item))) (Fin 0) slice)
                    (Fin (of_int period))
        in bar.extend d (bar_sma.fields (Some sma)))"

definition computeSMA :: "bar list \<Rightarrow> int \<Rightarrow> bar_sma list" where
  "computeSMA data period =
     map (\<lambda>(d, i). computeSMA_entry data period d i) (zip data [0..<length data])"

text \<open>The chart calls \<open>computeSMA(data)\<close>, with the default period.\<close>

definition computeSMA_default :: "bar list \<Rightarrow> bar_sma list" where
  "computeSMA_default data = computeSMA data 20"

text \<open>
  The arithmetic mean of a window: the precise sum divided by the number of entries
  (\<open>NaN\<close> for the empty window).
\<close>

definition js_mean :: "real list \<Rightarrow> jsnum" where
  "js_mean xs = jsdiv (Fin (sum_list xs)) (Fin (real (length xs)))"

text \<open>
  The mean of a window in double precision: the entries added from 0, left to right,
  and the sum divided by their number, each operation rounded. \<open>exact_sums\<close> says that
  no addition of \<open>double_sum\<close> rounds: the sum of every non-empty prefix is a double.
\<close>

definition double_sum :: "real list \<Rightarrow> jsnum" where
  "double_sum xs = foldl (\<lambda>sum x. fadd sum (Fin x)) (Fin 0) xs"

definition double_mean :: "real list \<Rightarrow> jsnum" where
  "double_mean xs = fdiv (double_sum xs) (Fin (real (length xs)))"

definition exact_sums :: "real list \<Rightarrow> bool" where
  "exact_sums xs =
     list_all (\<lambda>k. fl (sum_list (take k xs)) = Fin (sum_list (take k xs))) [1..<Suc (length xs)]"

subsection \<open>The same function on a store\<close>

text \<open>
  To state what \<open>computeSMA\<close> does to the objects it is given, the arrays and objects live
  in a store. An address is an index into the store; an allocation appends, so every
  address below the length of the store is in use and the next one is fresh. An object is
  a bar, a bar with its \<open>sma\<close>, or an array of addresses.
\<close>

type_synonym addr = nat

datatype obj = Bar bar | Bar_sma bar_sma | Array "addr list"

type_synonym store = "obj list"

definition alloc :: "store \<Rightarrow> obj \<Rightarrow> addr \<times> store" where
  "alloc h ob = (length h, h @ [ob])"

definition get_bar :: "store \<Rightarrow> addr \<Rightarrow> bar option" where
  "get_bar h a =
     (if a < length h then (case h ! a of Bar b \<Rightarrow> Some b | _ \<Rightarrow> None) else None)"

definition get_array :: "store \<Rightarrow> addr \<Rightarrow> addr list option" where
  "get_array h a =
     (if a < length h then (case h ! a of Array as \<Rightarrow> Some as | _ \<Rightarrow> None) else None)"

fun get_bars :: "store \<Rightarrow> addr list \<Rightarrow> bar list option" where
  "get_bars h [] = Some []"
| "get_bars h (a # as) =
     (case get_bar h a of
        None \<Rightarrow> None
      | Some b \<Rightarrow> (case get_bars h as of None \<Rightarrow> None | Some bs \<Rightarrow> Some (b # bs)))"

text \<open>
  \<open>extends h h'\<close>: the store \<open>h'\<close> holds every object of \<open>h\<close>, unchanged, at the same
  address (and possibly new objects after them).
\<close>

definition extends :: "store \<Rightarrow> store \<Rightarrow> bool" where
  "extends h h' \<longleftrightarrow> length h \<le> length h' \<and> take (length h) h' = h"

text \<open>
  The callback: the spread \<open>...d\<close> reads the fields of the object at \<open>d\<close>,
  \<open>data.slice\<close> allocates the window as a new array, \<open>reduce\<close> reads the \<open>Close\<close> of each
  of its items, and the object literal allocates the result. A read of an address that
  holds no object of the expected kind gives \<open>None\<close>.
\<close>

definition computeSMA_entry_h :: "store \<Rightarrow> addr \<Rightarrow> int \<Rightarrow> addr \<Rightarrow> nat \<Rightarrow> (addr \<times> store) option" where
  "computeSMA_entry_h h data period d i =
     (case get_bar h d of
        None \<Rightarrow> None
      | Some dfields \<Rightarrow>
          if int i < period - 1
          then Some (alloc h (Bar_sma (bar.extend dfields (bar_sma.fields None))))
          else
            (case get_array h data of
               None \<Rightarrow> None
             | Some elems \<Rightarrow>
                 let (slice, h1) = alloc h (Array (js_slice elems (int i - period + 1) (int i + 1)))
                 in (case get_array h1 slice of
                       None \<Rightarrow> None
                     | Some items \<Rightarrow>
                         (case get_bars h1 items of
                            None \<Rightarrow> None
                          | Some its \<Rightarrow>
                              let sma = fdiv (foldl (\<lambda>sum item. fadd sum (Fin (Close item)))
                                                (Fin 0) its)
                                          (Fin (of_int period))
                              in Some (alloc h1
                                   (Bar_sma (bar.extend dfields (bar_sma.fields (Some sma)))))))))"

text \<open>\<open>Array.prototype.map\<close>: the callback on each element in turn, from index \<open>i\<close>.\<close>

fun map_h :: "store \<Rightarrow> addr \<Rightarrow> int \<Rightarrow> addr list \<Rightarrow> nat \<Rightarrow> (addr list \<times> store) option" where
  "map_h h data period [] i = Some ([], h)"
| "map_h h data period (d # ds) i =
     (case computeSMA_entry_h h data period d i of
        None \<Rightarrow> None
      | Some (r, h1) \<Rightarrow>
          (case map_h h1 data period ds (Suc i) of
             None \<Rightarrow> None
           | Some (rs, h2) \<Rightarrow> Some (r # rs, h2)))"

definition computeSMA_h :: "store \<Rightarrow> addr \<Rightarrow> int \<Rightarrow> (addr \<times> store) option" where
  "computeSMA_h h data period =
     (case get_array h data of
        None \<Rightarrow> None
      | Some elems \<Rightarrow>
          (case map_h h data period elems 0 of
             None \<Rightarrow> None
           | Some (rs, h1) \<Rightarrow> Some (alloc h1 (Array rs))))"

section \<open>Portfolio view\<close>

text \<open>
  The view keeps its state in \<open>useState\<close>; the setter is never called, so the state shown
  is this initial value for the lifetime of the component.
\<close>

record position =
  symbol :: string
  shares :: real
  avgPrice :: real
  currentPrice :: real

record portfolio_state =
  totalValue :: real
  cash :: real
  positions :: "position list"

definition portfolio :: portfolio_state where
  "portfolio =
     \<lparr>totalValue = 100000, cash = 50000,
      positions =
        [\<lparr>position.symbol = ''AAPL'', shares = 100, avgPrice = 150, currentPrice = 245.29\<rparr>,
         \<lparr>position.symbol = ''MSFT'', shares = 50, avgPrice = 300, currentPrice = 412.5\<rparr>,
         \<lparr>position.symbol = ''GOOGL'', shares = 25, avgPrice = 2500, currentPrice = 2780\<rparr>]\<rparr>"

definition calculatePnL :: "real \<Rightarrow> real \<Rightarrow> real \<Rightarrow> real" where
  "calculatePnL = (\<lambda>shares avgPrice currentPrice. (currentPrice - avgPrice) * shares)"

definition calculateTotalPnL :: "portfolio_state \<Rightarrow> real" where
  "calculateTotalPnL pf =
     foldl (\<lambda>total position.
              total + calculatePnL (shares position) (avgPrice position) (currentPrice position))
       0 (positions pf)"

definition totalPnLPercentage :: "portfolio_state \<Rightarrow> jsnum" where
  "totalPnLPercentage pf =
     jsmul (jsdiv (Fin (calculateTotalPnL pf)) (Fin (totalValue pf))) (Fin 100)"

text \<open>The value of one position, as the allocation chart and the position rows compute it.\<close>

definition currentValue :: "position \<Rightarrow> real" where
  "currentValue position = shares position * currentPrice position"

definition allocationData :: "portfolio_state \<Rightarrow> (string \<times> real) list" where
  "allocationData pf =
     map (\<lambda>position. (position.symbol position, currentValue position)) (positions pf)"

section \<open>Backtest view\<close>

datatype action = BUY | SELL

record equity_point =
  date :: string
  equity :: real

record drawdown_point =
  date :: string
  drawdown :: jsnum

record trade =
  date :: string
  action :: action
  price :: real
  quantity :: real
  pnl :: real

text \<open>
  \<^verbatim>\<open>
  let equity = 100000;
  let maxEquity = 100000;
  const equityData = [];
  const drawdownData = [];
  trades.forEach(trade => {
    equity += trade.pnl;
    maxEquity = Math.max(maxEquity, equity);
    const drawdown = ((equity - maxEquity) / maxEquity) * 100;
    equityData.push({ date: trade.date, equity });
    drawdownData.push({ date: trade.date, drawdown });
  });
  \<close>
  The four variables the loop updates are the fields of \<open>curve_vars\<close>; \<open>forEach_body\<close> is
  one iteration and \<open>forEach_trades\<close> the loop over a trade list.
\<close>

record curve_vars =
  equity :: real
  maxEquity :: real
  equityData :: "equity_point list"
  drawdownData :: "drawdown_point list"

definition curve_init :: curve_vars where
  "curve_init =
     \<lparr>curve_vars.equity = 100000, maxEquity = 100000, equityData = [], drawdownData = []\<rparr>"

definition forEach_body :: "curve_vars \<Rightarrow> trade \<Rightarrow> curve_vars" where
  "forEach_body v trade =
     (let equity' = curve_vars.equity v + pnl trade;
          maxEquity' = max (maxEquity v) equity';
          drawdown' = jsmul (jsdiv (Fin (equity' - maxEquity')) (Fin maxEquity')) (Fin 100)
      in \<lparr>curve_vars.equity = equity', maxEquity = maxEquity',
          equityData = curve_vars.equityData v @
            [\<lparr>equity_point.date = trade.date trade, equity = equity'\<rparr>],
          drawdownData = curve_vars.drawdownData v @
            [\<lparr>drawdown_point.date = trade.date trade, drawdown = drawdown'\<rparr>]\<rparr>)"

definition forEach_trades :: "trade list \<Rightarrow> curve_vars" where
  "forEach_trades ts = foldl forEach_body curve_init ts"

text \<open>
  The result object. The selections of the form (\<open>symbol\<close>, \<open>strategy\<close>, \<open>period\<close>) are
  passed in; the trade list is a parameter too, so that the metrics are defined for
  every ledger, and \<open>runBacktest\<close> is the result for the list of the source.
  \<^verbatim>\<open>
  totalReturn: equity - 100000,
  totalReturnPercentage: ((equity - 100000) / 100000) * 100,
  sharpeRatio: 1.45,
  maxDrawdown: Math.min(...drawdownData.map(d => d.drawdown)),
  totalTrades: trades.length,
  winningTrades: trades.filter(t => t.pnl > 0).length,
  losingTrades: trades.filter(t => t.pnl < 0).length,
  winRate: (trades.filter(t => t.pnl > 0).length / trades.length) * 100,
  averageWin: trades.filter(t => t.pnl > 0).reduce((sum, t) => sum + t.pnl, 0)
              / trades.filter(t => t.pnl > 0).length || 0,
  averageLoss: trades.filter(t => t.pnl < 0).reduce((sum, t) => sum + t.pnl, 0)
              / trades.filter(t => t.pnl < 0).length || 0,
  profitFactor: Math.abs(trades.filter(t => t.pnl > 0).reduce((sum, t) => sum + t.pnl, 0)
              / trades.filter(t => t.pnl < 0).reduce((sum, t) => sum + t.pnl, 0)) || 0,
  \<close>
\<close>

record results =
  symbol :: string
  strategy :: string
  period :: string
  startDate :: string
  endDate :: string
  initialCapital :: real
  finalCapital :: real
  totalReturn :: real
  totalReturnPercentage :: jsnum
  sharpeRatio :: real
  maxDrawdown :: jsnum
  totalTrades :: nat
  winningTrades :: nat
  losingTrades :: nat
  winRate :: jsnum
  averageWin :: jsnum
  averageLoss :: jsnum
  profitFactor :: jsnum
  trades :: "trade list"
  equityData :: "equity_point list"
  drawdownData :: "drawdown_point list"
  tradeMarkers :: "(string \<times> real \<times> action \<times> real) list"

definition winning :: "trade list \<Rightarrow> trade list" where
  "winning ts = filter (\<lambda>t. pnl t > 0) ts"

definition losing :: "trade list \<Rightarrow> trade list" where
  "losing ts = filter (\<lambda>t. pnl t < 0) ts"

definition sum_pnl :: "trade list \<Rightarrow> real" where
  "sum_pnl ts = foldl (\<lambda>sum t. sum + pnl t) 0 ts"

definition mockResults :: "string \<Rightarrow> string \<Rightarrow> string \<Rightarrow> trade list \<Rightarrow> results" where
  "mockResults selectedSymbol selectedStrategy selectedPeriod ts =
     (let v = forEach_trades ts;
          equity' = curve_vars.equity v
      in \<lparr>results.symbol = selectedSymbol,
          strategy = selectedStrategy,
          period = selectedPeriod,
          startDate = ''2024-01-01'',
          endDate = ''2024-12-31'',
          initialCapital = 100000,
          finalCapital = equity',
          totalReturn = equity' - 100000,
          totalReturnPercentage = jsmul (jsdiv (Fin (equity' - 100000)) (Fin 100000)) (Fin 100),
          sharpeRatio = 1.45,
          maxDrawdown = Math_min (map drawdown (curve_vars.drawdownData v)),
          totalTrades = length ts,
          winningTrades = length (winning ts),
          losingTrades = length (losing ts),
          winRate = jsmul (jsdiv (Fin (real (length (winning ts)))) (Fin (real (length ts)))) (Fin 100),
          averageWin =
            js_or (jsdiv (Fin (sum_pnl (winning ts))) (Fin (real (length (winning ts))))) (Fin 0),
          averageLoss =
            js_or (jsdiv (Fin (sum_pnl (losing ts))) (Fin (real (length (losing ts))))) (Fin 0),
          profitFactor =
            js_or (Math_abs (jsdiv (Fin (sum_pnl (winning ts))) (Fin (sum_pnl (losing ts))))) (Fin 0),
          trades = ts,
          equityData = curve_vars.equityData v,
          drawdownData = curve_vars.drawdownData v,
          tradeMarkers = map (\<lambda>t. (trade.date t, price t, action t, pnl t)) ts\<rparr>)"

text \<open>The trade list that \<open>runBacktest\<close> builds its result from.\<close>

definition trades :: "trade list" where
  "trades =
     [\<lparr>trade.date = ''2024-01-15'', action = BUY, price = 150, quantity = 100, pnl = 0\<rparr>,
      \<lparr>trade.date = ''2024-01-20'', action = SELL, price = 155, quantity = 100, pnl = 500\<rparr>,
      \<lparr>trade.date = ''2024-02-01'', action = BUY, price = 152, quantity = 100, pnl = 0\<rparr>,
      \<lparr>trade.date = ''2024-02-10'', action = SELL, price = 148, quantity = 100, pnl = - 400\<rparr>,
      \<lparr>trade.date = ''2024-03-01'', action = BUY, price = 145, quantity = 100, pnl = 0\<rparr>,
      \<lparr>trade.date = ''2024-03-15'', action = SELL, price = 160, quantity = 100, pnl = 1500\<rparr>]"

definition runBacktest :: "string \<Rightarrow> string \<Rightarrow> string \<Rightarrow> results" where
  "runBacktest selectedSymbol selectedStrategy selectedPeriod =
     mockResults selectedSymbol selectedStrategy selectedPeriod trades"

text \<open>
  The loop after the iteration for trade \<open>i\<close> is the loop over the first \<open>i + 1\<close> trades:
  \<open>equity_at\<close> and \<open>peak_at\<close> read the variables \<open>equity\<close> and \<open>maxEquity\<close> there.
\<close>

definition equity_at :: "trade list \<Rightarrow> nat \<Rightarrow> real" where
  "equity_at ts i = curve_vars.equity (forEach_trades (take (Suc i) ts))"

definition peak_at :: "trade list \<Rightarrow> nat \<Rightarrow> real" where
  "peak_at ts i = maxEquity (forEach_trades (take (Suc i) ts))"

section \<open>The formulas of the specification\<close>

text \<open>
  The specification's own formulas, written from its words, to compare the result object
  with. A closing trade is a \<open>SELL\<close>. The standard deviation is the population one.
\<close>

definition spec_drawdown :: "real list \<Rightarrow> nat \<Rightarrow> real" where
  "spec_drawdown es t =
     (es ! t - Max (set (take (Suc t) es))) / Max (set (take (Suc t) es))"

definition closing :: "trade list \<Rightarrow> trade list" where
  "closing ts = filter (\<lambda>t. action t = SELL) ts"

definition spec_winRate :: "trade list \<Rightarrow> real" where
  "spec_winRate ts = real (length (winning ts)) / real (length (closing ts))"

definition spec_totalReturn :: "real \<Rightarrow> real \<Rightarrow> real" where
  "spec_totalReturn final_equity initial_equity =
     (final_equity - initial_equity) / initial_equity"

definition period_returns :: "real list \<Rightarrow> real list" where
  "period_returns es = map (\<lambda>(a, b). (b - a) / a) (zip (butlast es) (tl es))"

definition mean :: "real list \<Rightarrow> real" where
  "mean xs = sum_list xs / real (length xs)"

definition stdev :: "real list \<Rightarrow> real" where
  "stdev xs = sqrt (sum_list (map (\<lambda>x. (x - mean xs)\<^sup>2) xs) / real (length xs))"

definition spec_sharpeRatio :: "real list \<Rightarrow> real \<Rightarrow> real option" where
  "spec_sharpeRatio returns periods_per_year =
     (if returns = [] \<or> stdev returns = 0 then None
      else Some (mean returns / stdev returns * sqrt periods_per_year))"

definition spec_profitFactor :: "trade list \<Rightarrow> jsnum" where
  "spec_profitFactor ts =
     jsdiv (Fin (sum_list (map pnl (winning ts)))) (Math_abs (Fin (sum_list (map pnl (losing ts)))))"

datatype indicator_error = InsufficientDataError

definition spec_SMA :: "real list \<Rightarrow> nat \<Rightarrow> indicator_error + jsnum option list" where
  "spec_SMA series p =
     (if length series < p then Inl InsufficientDataError
      else Inr (map (\<lambda>i. if i < p - 1 then None
                          else Some (js_mean (take p (drop (i + 1 - p) series))))
                  [0..<length series]))"

section \<open>Example data\<close>

text \<open>
  Three bars with closes 10, 20, 60, and a store that holds them at addresses 0 to 2 and
  their array at address 3. Two bars whose closes are the double \<open>2 ^ 1023\<close>, and three
  bars with the closes \<open>2 ^ 53\<close>, 1 and \<open>- 2 ^ 53\<close>, which are doubles too.
\<close>

definition bars3 :: "bar list" where
  "bars3 =
     [\<lparr>Datetime = ''2024-01-02'', Open = 9, High = 11, Low = 8, Close = 10, Volume = 1000\<rparr>,
      \<lparr>Datetime = ''2024-01-03'', Open = 10, High = 21, Low = 10, Close = 20, Volume = 1500\<rparr>,
      \<lparr>Datetime = ''2024-01-04'', Open = 20, High = 61, Low = 19, Close = 60, Volume = 900\<rparr>]"

definition bars_overflow :: "bar list" where
  "bars_overflow =
     [\<lparr>Datetime = ''2024-01-02'', Open = 2 ^ 1023, High = 2 ^ 1023, Low = 2 ^ 1023,
        Close = 2 ^ 1023, Volume = 1000\<rparr>,
      \<lparr>Datetime = ''2024-01-03'', Open = 2 ^ 1023, High = 2 ^ 1023, Low = 2 ^ 1023,
        Close = 2 ^ 1023, Volume = 1000\<rparr>]"

definition bars_absorb :: "bar list" where
  "bars_absorb =
     [\<lparr>Datetime = ''2024-01-02'', Open = 2 ^ 53, High = 2 ^ 53, Low = 2 ^ 53,
        Close = 2 ^ 53, Volume = 1000\<rparr>,
      \<lparr>Datetime = ''2024-01-03'', Open = 1, High = 1, Low = 1, Close = 1, Volume = 1000\<rparr>,
      \<lparr>Datetime = ''2024-01-04'', Open = - (2 ^ 53), High = - (2 ^ 53), Low = - (2 ^ 53),
        Close = - (2 ^ 53), Volume = 1000\<rparr>]"

definition store3 :: store where
  "store3 = [Bar (bars3 ! 0), Bar (bars3 ! 1), Bar (bars3 ! 2), Array [0, 1, 2]]"

section \<open>The moving average: results\<close>

subsection \<open>Rounding\<close>

lemma round_even_of_int: "round_even (of_int z) = z"
  by (simp add: round_even_def)

lemma ulp_exp_le:
  assumes m: "m \<noteq> 0" "\<bar>m\<bar> < 2 ^ 53" and e: "- 1074 \<le> e"
  shows "ulp_exp \<bar>of_int m * 2 powi e\<bar> \<le> e"
proof -
  let ?a = "\<bar>of_int m * 2 powi e\<bar> :: real"
  have a: "?a = of_int \<bar>m\<bar> * 2 powi e" by (simp add: abs_mult)
  have pos: "0 < ?a" using m(1) by (simp add: a)
  have "of_int \<bar>m\<bar> < (2::real) ^ 53" using m(2) by (metis of_int_less_numeral_power_cancel_iff)
  then have "?a < 2 ^ 53 * 2 powi e" unfolding a by (simp)
  also have "\<dots> = 2 powi (53 + e)" by (simp add: power_int_add)
  also have "\<dots> = 2 powr real_of_int (53 + e)"
    by (rule powr_real_of_int' [symmetric]) simp_all
  finally have "log 2 ?a < real_of_int (53 + e)" using pos by (simp add: log_less_iff)
  then have "\<lfloor>log 2 ?a\<rfloor> < 53 + e" by (simp add: floor_less_iff)
  then show ?thesis using e by (simp add: ulp_exp_def)
qed

text \<open>A double rounds to itself; beyond the largest double, to an infinity.\<close>

lemma fl_representable:
  assumes m: "\<bar>m\<bar> < 2 ^ 53" and e: "- 1074 \<le> e"
  shows "fl (of_int m * 2 powi e) =
         (if 2 ^ 1024 \<le> \<bar>of_int m * 2 powi e :: real\<bar>
          then (if 0 < m then PInf else NInf) else Fin (of_int m * 2 powi e))"
proof (cases "m = 0")
  case True
  then show ?thesis by (simp add: fl_def)
next
  case False
  let ?x = "of_int m * 2 powi e :: real"
  define e' where "e' = ulp_exp \<bar>?x\<bar>"
  define P :: real where "P = 2 powi e'"
  have le: "e' \<le> e" unfolding e'_def by (rule ulp_exp_le [OF False m e])
  then obtain d where d: "e = e' + int d" by (metis zle_iff_zadd)
  have P0: "0 < P" by (simp add: P_def)
  have pe: "(2::real) powi e = P * 2 ^ d"
    unfolding P_def by (subst d) (simp add: power_int_add)
  have q: "?x / P = of_int (m * 2 ^ d)" using P0 by (simp add: pe)
  have y: "of_int (round_even (?x / P)) * P = ?x"
    unfolding q round_even_of_int by (simp add: pe)
  have x0: "?x \<noteq> 0" using False by simp
  have np: "\<not> (2::real) powi e < 0" by (simp add: not_less)
  have sg: "0 < ?x \<longleftrightarrow> 0 < m" by (simp add: zero_less_mult_iff np)
  have "fl ?x = (if 2 ^ 1024 \<le> \<bar>of_int (round_even (?x / P)) * P\<bar>
                 then (if 0 < ?x then PInf else NInf)
                 else Fin (of_int (round_even (?x / P)) * P))"
    using x0 by (simp only: fl_def Let_def e'_def [symmetric] P_def [symmetric] if_False)
  then show ?thesis unfolding y sg .
qed

lemma fl_of_int: "\<bar>k\<bar> < 2 ^ 53 \<Longrightarrow> fl (of_int k) = Fin (of_int k)"
proof -
  assume k: "\<bar>k\<bar> < 2 ^ 53"
  have "\<bar>of_int k :: real\<bar> < 2 ^ 53" using k by (metis of_int_abs of_int_less_numeral_power_cancel_iff)
  also have "\<dots> < (2::real) ^ 1024" by simp
  finally have "\<not> 2 ^ 1024 \<le> \<bar>of_int k * 2 powi 0 :: real\<bar>" by simp
  with fl_representable [OF k, of 0] show ?thesis by simp
qed

lemma fl_pow53: "fl (2 ^ 53) = Fin (2 ^ 53)"
proof -
  have "fl (of_int (2 ^ 52) * 2 powi 1) =
        (if 2 ^ 1024 \<le> \<bar>of_int (2 ^ 52) * 2 powi 1 :: real\<bar>
          then (if 0 < (2 ^ 52 :: int) then PInf else NInf) else Fin (of_int (2 ^ 52) * 2 powi 1))"
    by (rule fl_representable) simp_all
  then show ?thesis by simp
qed

lemma fl_pow1023: "fl (2 ^ 1023) = Fin (2 ^ 1023)"
proof -
  have "fl (of_int (2 ^ 52) * 2 powi 971) =
        (if 2 ^ 1024 \<le> \<bar>of_int (2 ^ 52) * 2 powi 971 :: real\<bar>
          then (if 0 < (2 ^ 52 :: int) then PInf else NInf) else Fin (of_int (2 ^ 52) * 2 powi 971))"
    by (rule fl_representable) simp_all
  moreover have "of_int (2 ^ 52) * 2 powi 971 = (2::real) ^ 1023"
    by (simp add: power_add [symmetric])
  ultimately show ?thesis by simp
qed

lemma fl_pow1024: "fl (2 ^ 1024) = PInf"
proof -
  have "fl (of_int (2 ^ 52) * 2 powi 972) =
        (if 2 ^ 1024 \<le> \<bar>of_int (2 ^ 52) * 2 powi 972 :: real\<bar>
          then (if 0 < (2 ^ 52 :: int) then PInf else NInf) else Fin (of_int (2 ^ 52) * 2 powi 972))"
    by (rule fl_representable) simp_all
  moreover have "of_int (2 ^ 52) * 2 powi 972 = (2::real) ^ 1024"
    by (simp add: power_add [symmetric])
  ultimately show ?thesis by simp
qed

text \<open>\<open>2 ^ 53 + 1\<close> lies halfway between two doubles and rounds to the even one.\<close>

lemma fl_absorb: "fl (2 ^ 53 + 1) = Fin (2 ^ 53)"
proof -
  define x :: real where "x = 2 ^ 53 + 1"
  have x: "2 powr 53 \<le> x" "x < 2 powr (53 + 1)" "0 < x" "\<bar>x\<bar> = x"
    by (simp_all add: x_def)
  have "\<lfloor>log 2 x\<rfloor> = 53"
    using floor_log_eq_powr_iff [of x 2 53] x by simp
  then have e: "ulp_exp x = 1" by (simp add: ulp_exp_def)
  have f: "\<lfloor>x / 2\<rfloor> = 2 ^ 52" by (simp add: x_def floor_eq_iff)
  have "x / 2 - of_int (2 ^ 52) = 1 / 2" by (simp add: x_def)
  then have r: "round_even (x / 2) = 2 ^ 52"
    by (simp add: round_even_def f Let_def)
  have "fl x = Fin (2 ^ 53)"
    using x(3) by (simp add: fl_def x(4) e r Let_def)
  then show ?thesis by (simp add: x_def)
qed

subsection \<open>The mean of a window\<close>

lemma foldl_Close:
  "foldl (\<lambda>sum item. fadd sum (Fin (Close item))) a xs =
   foldl (\<lambda>sum x. fadd sum (Fin x)) a (map Close xs)"
  by (induction xs arbitrary: a) simp_all

lemma double_sum_snoc: "double_sum (xs @ [x]) = fadd (double_sum xs) (Fin x)"
  by (simp add: double_sum_def)

lemma exact_sums_snoc:
  "exact_sums (xs @ [x]) \<longleftrightarrow>
   exact_sums xs \<and> fl (sum_list xs + x) = Fin (sum_list xs + x)"
  by (auto simp: exact_sums_def list_all_iff)

lemma double_sum_exact: "exact_sums xs \<Longrightarrow> double_sum xs = Fin (sum_list xs)"
proof (induction xs rule: rev_induct)
  case Nil
  show ?case by (simp add: double_sum_def)
next
  case (snoc x xs)
  then have "double_sum xs = Fin (sum_list xs)" and "fl (sum_list xs + x) = Fin (sum_list xs + x)"
    by (simp_all add: exact_sums_snoc)
  then show ?case by (simp add: double_sum_snoc fadd_def)
qed

lemma double_mean_exact:
  assumes "xs \<noteq> []" and "exact_sums xs"
    and "fl (sum_list xs / real (length xs)) = Fin (sum_list xs / real (length xs))"
  shows "double_mean xs = Fin (sum_list xs / real (length xs))"
  using assms by (simp add: double_mean_def double_sum_exact fdiv_def)

lemma js_slice_nat:
  assumes "a \<le> b" and "b \<le> length xs"
  shows "js_slice xs (int a) (int b) = take (b - a) (drop a xs)"
proof -
  have "nat (int b - int a) = b - a" by simp
  moreover have "min (int a) (int (length xs)) = int a" using assms by simp
  moreover have "min (int b) (int (length xs)) = int b" using assms by simp
  ultimately show ?thesis by (simp add: js_slice_def Let_def)
qed

lemma js_slice_window:
  assumes "p \<le> i + 1" and "i < length xs"
  shows "js_slice xs (int i - int p + 1) (int i + 1) = take p (drop (i + 1 - p) xs)"
proof -
  have s: "int i - int p + 1 = int (i + 1 - p)" using assms by simp
  have e: "int i + 1 = int (i + 1)" by simp
  have "js_slice xs (int (i + 1 - p)) (int (i + 1)) =
        take (i + 1 - (i + 1 - p)) (drop (i + 1 - p) xs)"
    by (rule js_slice_nat) (use assms in simp_all)
  moreover have "i + 1 - (i + 1 - p) = p" using assms by simp
  ultimately show ?thesis unfolding s e by simp
qed

lemma computeSMA_length: "length (computeSMA data per) = length data"
  by (simp add: computeSMA_def)

lemma computeSMA_nth:
  "i < length data \<Longrightarrow> computeSMA data per ! i = computeSMA_entry data per (data ! i) i"
  by (simp add: computeSMA_def)

lemma sma_extend: "sma (bar.extend d (bar_sma.fields v)) = v"
  by (simp add: bar.defs bar_sma.defs)

lemma truncate_extend: "bar.truncate (bar.extend d (bar_sma.fields v)) = d"
  by (simp add: bar.defs bar_sma.defs)

lemma entry_null: "int i < per - 1 \<Longrightarrow> computeSMA_entry data per d i = bar.extend d (bar_sma.fields None)"
  by (simp add: computeSMA_entry_def)

lemma entry_mean:
  assumes "p \<le> i + 1" and "i < length data"
  shows "computeSMA_entry data (int p) d i =
         bar.extend d (bar_sma.fields (Some (double_mean (map Close (take p (drop (i + 1 - p) data))))))"
proof -
  have n: "\<not> int i < int p - 1" using assms by simp
  have l: "length (take p (drop (i + 1 - p) data)) = p" using assms by simp
  have m: "double_mean (map Close (take p (drop (i + 1 - p) data))) =
           fdiv (foldl (\<lambda>sum x. fadd sum (Fin x)) (Fin 0) (map Close (take p (drop (i + 1 - p) data))))
             (Fin (real p))"
    by (simp only: double_mean_def double_sum_def length_map l)
  have "computeSMA_entry data (int p) d i =
        bar.extend d (bar_sma.fields (Some (
          fdiv (foldl (\<lambda>sum item. fadd sum (Fin (Close item))) (Fin 0) (take p (drop (i + 1 - p) data)))
            (Fin (of_int (int p))))))"
    using n by (simp only: computeSMA_entry_def Let_def js_slice_window [OF assms] if_False)
  also have "\<dots> = bar.extend d (bar_sma.fields (Some (
          fdiv (foldl (\<lambda>sum x. fadd sum (Fin x)) (Fin 0) (map Close (take p (drop (i + 1 - p) data))))
            (Fin (real p)))))"
    by (simp only: foldl_Close of_int_of_nat_eq)
  finally show ?thesis by (simp only: m)
qed

lemma fl_examples: "fl 20 = Fin 20" "fl 80 = Fin 80" "fl 40 = Fin 40"
    using fl_of_int [of 20] fl_of_int [of 80] fl_of_int [of 40] by simp_all
lemma bars3_window: "map Close (take 2 (drop (2 + 1 - 2) bars3)) = [20, 60]"
    by (simp add: bars3_def)

lemma bars3_exact_sums: "exact_sums [20, 60]" by (simp add: exact_sums_def fl_examples)

lemma bars3_exact_quotient: "fl (sum_list [20, 60] / real 2) = Fin (sum_list [20, 60] / real 2)" by (simp add: fl_examples)

lemma double_mean_overflow: "double_mean [2 ^ 1023, 2 ^ 1023] = PInf"
proof -
  have "(2::real) ^ 1023 + 2 ^ 1023 = 2 ^ 1024" by simp
  then have s: "double_sum [2 ^ 1023, 2 ^ 1023] = PInf"
    by (simp only: double_sum_def foldl.simps fadd_def jsadd.simps to_double.simps
        add_0 fl_pow1023 fl_pow1024)
  show ?thesis by (simp only: double_mean_def s fdiv_def) simp
qed

lemma double_mean_absorb: "double_mean [2 ^ 53, 1, - (2 ^ 53)] = Fin 0"
proof -
  have z: "fl 0 = Fin 0" by (simp add: fl_def)
  have c: "(2::real) ^ 53 + - (2 ^ 53) = 0" by simp
  have s: "double_sum [2 ^ 53, 1, - (2 ^ 53)] = Fin 0"
    by (simp only: double_sum_def foldl.simps fadd_def jsadd.simps to_double.simps
        add_0 fl_pow53 fl_absorb c z)
  show ?thesis by (simp only: double_mean_def s fdiv_def) (simp add: z)
qed

text \<open>
  Claim C3, as stated, at two series of doubles. With the closes \<open>2 ^ 1023\<close> and
  \<open>2 ^ 1023\<close> and period 2, the sum overflows and the entry at index 1 is \<open>Infinity\<close>,
  while the arithmetic mean is \<open>2 ^ 1023\<close>. With the closes \<open>2 ^ 53\<close>, 1 and
  \<open>- 2 ^ 53\<close> and period 3, the second addition rounds the 1 away and the entry at
  index 2 is 0, while the arithmetic mean is \<open>1 / 3\<close>.
\<close>

theorem computeSMA_exact_mean_counterexample:
  "(2::nat) \<le> length bars_overflow \<and>
   sma (computeSMA bars_overflow (int 2) ! 1) = Some PInf \<and>
   js_mean (map Close (take 2 (drop (1 + 1 - 2) bars_overflow))) = Fin (2 ^ 1023) \<and>
   (3::nat) \<le> length bars_absorb \<and>
   sma (computeSMA bars_absorb (int 3) ! 2) = Some (Fin 0) \<and>
   js_mean (map Close (take 3 (drop (2 + 1 - 3) bars_absorb))) = Fin (1 / 3)"
proof -
  have lo: "length bars_overflow = 2" by (simp add: bars_overflow_def)
  have la: "length bars_absorb = 3" by (simp add: bars_absorb_def)
  have wo: "map Close (take 2 (drop (1 + 1 - 2) bars_overflow)) = [2 ^ 1023, 2 ^ 1023]"
    by (simp add: bars_overflow_def del: power_numeral)
  have wa: "map Close (take 3 (drop (2 + 1 - 3) bars_absorb)) = [2 ^ 53, 1, - (2 ^ 53)]"
    by (simp add: bars_absorb_def del: power_numeral)
  have io: "(2::nat) \<le> 1 + 1" "(1::nat) < length bars_overflow" by (simp_all add: lo)
  have ia: "(3::nat) \<le> 2 + 1" "(2::nat) < length bars_absorb" by (simp_all add: la)
  have so: "sma (computeSMA bars_overflow (int 2) ! 1) = Some PInf"
    by (simp only: computeSMA_nth [OF io(2)] entry_mean [OF io] sma_extend wo double_mean_overflow)
  have sa: "sma (computeSMA bars_absorb (int 3) ! 2) = Some (Fin 0)"
    by (simp only: computeSMA_nth [OF ia(2)] entry_mean [OF ia] sma_extend wa double_mean_absorb)
  have mo: "js_mean [2 ^ 1023, 2 ^ 1023] = Fin (2 ^ 1023)"
    by (simp add: js_mean_def)
  have ma: "js_mean [2 ^ 53, 1, - (2 ^ 53)] = Fin (1 / 3)"
    by (simp add: js_mean_def)
  have l2: "(2::nat) \<le> length bars_overflow" and l3: "(3::nat) \<le> length bars_absorb"
    by (simp_all add: lo la)
  show ?thesis unfolding wo wa mo ma using l2 l3 so sa by (intro conjI) simp_all
qed

text \<open>
  Claim C3, amended. For a series and a period \<open>p\<close> of at most its length, \<open>computeSMA\<close>
  returns as many entries as the series has; the entries at the indices below \<open>p - 1\<close>
  have the \<open>sma\<close> \<open>null\<close>; the entry at each index \<open>i\<close> from \<open>p - 1\<close> on has as
  \<open>sma\<close> the mean of the \<open>p\<close> closes that end at \<open>i\<close> as double precision computes
  it: the closes added from 0, left to right, and the sum divided by \<open>p\<close>, each
  operation rounded to a double. For a period of at least 1 this is the arithmetic mean,
  the sum divided by \<open>p\<close>, whenever no addition and not the division rounds or
  overflows.
\<close>

theorem computeSMA_trailing_double_mean:
  "p \<le> length data \<Longrightarrow>
   length (computeSMA data (int p)) = length data \<and>
   (\<forall>i. i < p - 1 \<longrightarrow> sma (computeSMA data (int p) ! i) = None) \<and>
   (\<forall>i. p - 1 \<le> i \<and> i < length data \<longrightarrow>
      sma (computeSMA data (int p) ! i) =
        Some (double_mean (map Close (take p (drop (i + 1 - p) data)))) \<and>
      (1 \<le> p \<and> exact_sums (map Close (take p (drop (i + 1 - p) data))) \<and>
       fl (sum_list (map Close (take p (drop (i + 1 - p) data))) / real p) =
         Fin (sum_list (map Close (take p (drop (i + 1 - p) data))) / real p) \<longrightarrow>
         double_mean (map Close (take p (drop (i + 1 - p) data))) =
           Fin (sum_list (map Close (take p (drop (i + 1 - p) data))) / real p)))"
proof (intro conjI allI impI)
  assume p: "p \<le> length data"
  show "length (computeSMA data (int p)) = length data" by (rule computeSMA_length)
  {
    fix i assume i: "i < p - 1"
    then have "i < length data" and "int i < int p - 1" using p by simp_all
    then show "sma (computeSMA data (int p) ! i) = None"
      by (simp add: computeSMA_nth entry_null sma_extend)
  }
  {
    fix i assume i: "p - 1 \<le> i \<and> i < length data"
    let ?w = "map Close (take p (drop (i + 1 - p) data))"
    from i have a: "p \<le> i + 1" and b: "i < length data" by auto
    show "sma (computeSMA data (int p) ! i) = Some (double_mean ?w)"
      using b by (simp add: computeSMA_nth entry_mean [OF a b] sma_extend)
    assume e: "1 \<le> p \<and> exact_sums ?w \<and> fl (sum_list ?w / real p) = Fin (sum_list ?w / real p)"
    have l: "length ?w = p" using a b by simp
    with e have ne: "?w \<noteq> []" by auto
    from e have q: "fl (sum_list ?w / real (length ?w)) = Fin (sum_list ?w / real (length ?w))"
      unfolding l by simp
    from e have x: "exact_sums ?w" by simp
    show "double_mean ?w = Fin (sum_list ?w / real p)"
      using double_mean_exact [OF ne x q] unfolding l .
  }
qed

text \<open>
  The amended statement at the three example bars with period 2: no value at index 0,
  and 40, the mean of 20 and 60, at index 2, where no operation rounds.
\<close>

theorem computeSMA_trailing_double_mean_witness:
  "(2::nat) \<le> length bars3 \<and>
   length (computeSMA bars3 (int 2)) = 3 \<and>
   sma (computeSMA bars3 (int 2) ! 0) = None \<and>
   sma (computeSMA bars3 (int 2) ! 2) = Some (Fin 40)"
proof -
  have len: "length bars3 = 3" by (simp add: bars3_def)
  have p: "(2::nat) \<le> length bars3" by (simp add: len)
  note th = computeSMA_trailing_double_mean [OF p]
  have i0: "(0::nat) < 2 - 1" by simp
  have i2: "(2::nat) - 1 \<le> 2 \<and> 2 < length bars3" by (simp add: len)
  have h: "(1::nat) \<le> 2 \<and> exact_sums (map Close (take 2 (drop (2 + 1 - 2) bars3))) \<and>
       fl (sum_list (map Close (take 2 (drop (2 + 1 - 2) bars3))) / real 2) =
         Fin (sum_list (map Close (take 2 (drop (2 + 1 - 2) bars3))) / real 2)"
    unfolding bars3_window using bars3_exact_sums bars3_exact_quotient by simp
  from th have a: "length (computeSMA bars3 (int 2)) = 3" unfolding len by (rule conjunct1)
  from th have t2: "\<forall>i. i < 2 - 1 \<longrightarrow> sma (computeSMA bars3 (int 2) ! i) = None"
    by (rule conjunct1 [OF conjunct2])
  have b: "sma (computeSMA bars3 (int 2) ! 0) = None" by (rule mp [OF spec [OF t2] i0])
  note t3 = conjunct2 [OF conjunct2 [OF th]]
  note t3i = mp [OF spec [OF t3, of 2] i2]
  note s1 = conjunct1 [OF t3i]
  note s2 = mp [OF conjunct2 [OF t3i] h]
  have c: "sma (computeSMA bars3 (int 2) ! 2) = Some (Fin 40)"
    using s1 s2 unfolding bars3_window by simp
  from p a b c show ?thesis by (intro conjI)
qed

subsection \<open>On the store\<close>

lemma extends_refl: "extends h h"
  by (simp add: extends_def)

lemma extends_trans: "extends h h1 \<Longrightarrow> extends h1 h2 \<Longrightarrow> extends h h2"
proof -
  assume a: "extends h h1" and b: "extends h1 h2"
  then have l: "length h \<le> length h1" "length h1 \<le> length h2" by (simp_all add: extends_def)
  have "take (length h) h2 = take (length h) (take (length h1) h2)"
    using l by (simp add: min_def)
  also have "\<dots> = h" using a b by (simp add: extends_def)
  finally show ?thesis using l by (simp add: extends_def)
qed

lemma extends_nth: "extends h h' \<Longrightarrow> a < length h \<Longrightarrow> h' ! a = h ! a"
  by (metis extends_def nth_take)

lemma get_bar_extends: "extends h h' \<Longrightarrow> get_bar h a = Some b \<Longrightarrow> get_bar h' a = Some b"
proof -
  assume e: "extends h h'" and g: "get_bar h a = Some b"
  from g have a: "a < length h" by (simp add: get_bar_def split: if_splits)
  with e have "a < length h'" and "h' ! a = h ! a"
    by (simp_all add: extends_nth) (simp add: extends_def)
  with g a show ?thesis by (simp add: get_bar_def)
qed

lemma get_array_extends: "extends h h' \<Longrightarrow> get_array h a = Some as \<Longrightarrow> get_array h' a = Some as"
proof -
  assume e: "extends h h'" and g: "get_array h a = Some as"
  from g have a: "a < length h" by (simp add: get_array_def split: if_splits)
  with e have "a < length h'" and "h' ! a = h ! a"
    by (simp_all add: extends_nth) (simp add: extends_def)
  with g a show ?thesis by (simp add: get_array_def)
qed

lemma get_bars_iff: "get_bars h as = Some bs \<longleftrightarrow> map (get_bar h) as = map Some bs"
proof (induction as arbitrary: bs)
  case Nil
  show ?case by auto
next
  case (Cons a as)
  show ?case
  proof (cases bs)
    case Nil
    then show ?thesis by (simp split: option.splits)
  next
    case (Cons b bs')
    then show ?thesis using Cons.IH [of bs'] by (auto split: option.splits)
  qed
qed

lemma get_bars_length: "get_bars h as = Some bs \<Longrightarrow> length bs = length as"
  by (metis get_bars_iff length_map)

lemma get_bars_nth: "get_bars h as = Some bs \<Longrightarrow> i < length as \<Longrightarrow> get_bar h (as ! i) = Some (bs ! i)"
proof -
  assume g: "get_bars h as = Some bs" and i: "i < length as"
  then have "map (get_bar h) as ! i = map Some bs ! i" by (simp add: get_bars_iff)
  with i get_bars_length [OF g] show ?thesis by simp
qed

lemma get_bars_extends: "extends h h' \<Longrightarrow> get_bars h as = Some bs \<Longrightarrow> get_bars h' as = Some bs"
proof (induction as arbitrary: bs)
  case Nil
  then show ?case by simp
next
  case (Cons a as)
  from Cons.prems(2) obtain b bs' where b: "get_bar h a = Some b" and bs': "get_bars h as = Some bs'"
    and bs: "bs = b # bs'"
    by (auto split: option.splits)
  from get_bar_extends [OF Cons.prems(1) b] Cons.IH [OF Cons.prems(1) bs'] bs
  show ?case by simp
qed

lemma get_bars_slice: "get_bars h as = Some bs \<Longrightarrow> get_bars h (js_slice as s e) = Some (js_slice bs s e)"
proof -
  assume g: "get_bars h as = Some bs"
  then have m: "map (get_bar h) as = map Some bs" by (simp add: get_bars_iff)
  have l: "length bs = length as" by (rule get_bars_length [OF g])
  have "map (get_bar h) (js_slice as s e) = map Some (js_slice bs s e)"
    unfolding js_slice_def Let_def l by (simp only: take_map [symmetric] drop_map [symmetric] m)
  then show ?thesis by (simp add: get_bars_iff)
qed

lemma computeSMA_entry_h_ok:
  assumes d: "get_bar h d = Some b"
    and arr: "get_array h data = Some elems"
    and bars: "get_bars h elems = Some bs"
  shows "\<exists>r h'. computeSMA_entry_h h data per d i = Some (r, h') \<and> extends h h' \<and>
           length h \<le> r \<and> r < length h' \<and> h' ! r = Bar_sma (computeSMA_entry bs per b i)"
proof (cases "int i < per - 1")
  case True
  let ?ob = "Bar_sma (bar.extend b (bar_sma.fields None))"
  have "computeSMA_entry_h h data per d i = Some (alloc h ?ob)"
    using d True by (simp add: computeSMA_entry_h_def)
  moreover have "computeSMA_entry bs per b i = bar.extend b (bar_sma.fields None)"
    using True by (simp add: computeSMA_entry_def)
  ultimately show ?thesis
    by (simp add: alloc_def extends_def)
next
  case False
  let ?sl = "js_slice elems (int i - per + 1) (int i + 1)"
  let ?h1 = "h @ [Array ?sl]"
  have e1: "extends h ?h1" by (simp add: extends_def)
  have a1: "get_array ?h1 (length h) = Some ?sl" by (simp add: get_array_def)
  have "get_bars h ?sl = Some (js_slice bs (int i - per + 1) (int i + 1))"
    by (rule get_bars_slice [OF bars])
  then have b1: "get_bars ?h1 ?sl = Some (js_slice bs (int i - per + 1) (int i + 1))"
    by (rule get_bars_extends [OF e1])
  let ?ob = "Bar_sma (computeSMA_entry bs per b i)"
  have ob: "computeSMA_entry bs per b i =
      bar.extend b (bar_sma.fields (Some (fdiv
        (foldl (\<lambda>sum item. fadd sum (Fin (Close item))) (Fin 0)
           (js_slice bs (int i - per + 1) (int i + 1)))
        (Fin (of_int per)))))"
    using False by (simp add: computeSMA_entry_def Let_def)
  have "computeSMA_entry_h h data per d i = Some (alloc ?h1 ?ob)"
    using d arr False a1 b1 by (simp add: computeSMA_entry_h_def alloc_def Let_def ob)
  then show ?thesis
    by (simp add: alloc_def extends_def nth_append)
qed

lemma map_h_ok:
  assumes "get_array h data = Some elems" and "get_bars h elems = Some bs"
    and "get_bars h ds = Some dbs"
  shows "\<exists>rs h'. map_h h data per ds i = Some (rs, h') \<and> extends h h' \<and>
           length rs = length ds \<and>
           (\<forall>k<length ds. length h \<le> rs ! k \<and> rs ! k < length h' \<and>
              h' ! (rs ! k) = Bar_sma (computeSMA_entry bs per (dbs ! k) (i + k)))"
  using assms
proof (induction ds arbitrary: h i dbs)
  case Nil
  show ?case by (simp add: extends_refl)
next
  case (Cons d ds)
  from Cons.prems(3) obtain b dbs' where b: "get_bar h d = Some b"
    and dbs': "get_bars h ds = Some dbs'" and dbs: "dbs = b # dbs'"
    by (auto split: option.splits)
  from computeSMA_entry_h_ok [OF b Cons.prems(1) Cons.prems(2), of per i]
  obtain r h1 where c: "computeSMA_entry_h h data per d i = Some (r, h1)"
    and e1: "extends h h1" and r: "length h \<le> r" "r < length h1"
    and ob: "h1 ! r = Bar_sma (computeSMA_entry bs per b i)"
    by blast
  from Cons.IH [OF get_array_extends [OF e1 Cons.prems(1)] get_bars_extends [OF e1 Cons.prems(2)]
        get_bars_extends [OF e1 dbs'], of "Suc i"]
  obtain rs h2 where m: "map_h h1 data per ds (Suc i) = Some (rs, h2)"
    and e2: "extends h1 h2" and len: "length rs = length ds"
    and each: "\<forall>k<length ds. length h1 \<le> rs ! k \<and> rs ! k < length h2 \<and>
              h2 ! (rs ! k) = Bar_sma (computeSMA_entry bs per (dbs' ! k) (Suc i + k))"
    by blast
  have l12: "length h1 \<le> length h2" using e2 by (simp add: extends_def)
  have l01: "length h \<le> length h1" using e1 by (simp add: extends_def)
  have "map_h h data per (d # ds) i = Some (r # rs, h2)" using c m by simp
  moreover have "extends h h2" by (rule extends_trans [OF e1 e2])
  moreover have "length (r # rs) = length (d # ds)" using len by simp
  moreover have "\<forall>k<length (d # ds). length h \<le> (r # rs) ! k \<and> (r # rs) ! k < length h2 \<and>
              h2 ! ((r # rs) ! k) = Bar_sma (computeSMA_entry bs per (dbs ! k) (i + k))"
  proof (intro allI impI)
    fix k assume k: "k < length (d # ds)"
    show "length h \<le> (r # rs) ! k \<and> (r # rs) ! k < length h2 \<and>
              h2 ! ((r # rs) ! k) = Bar_sma (computeSMA_entry bs per (dbs ! k) (i + k))"
    proof (cases k)
      case 0
      have "h2 ! r = h1 ! r" by (rule extends_nth [OF e2 r(2)])
      with 0 r ob l12 show ?thesis by (simp add: dbs)
    next
      case (Suc k')
      with k have "k' < length ds" by simp
      with each have "length h1 \<le> rs ! k' \<and> rs ! k' < length h2 \<and>
              h2 ! (rs ! k') = Bar_sma (computeSMA_entry bs per (dbs' ! k') (Suc i + k'))"
        by blast
      with Suc l01 show ?thesis by (simp add: dbs)
    qed
  qed
  ultimately show ?case by blast
qed

lemma computeSMA_h_ok:
  assumes arr: "get_array h data = Some elems" and bars: "get_bars h elems = Some bs"
  shows "\<exists>r h' rs. computeSMA_h h data per = Some (r, h') \<and> extends h h' \<and>
           length h \<le> r \<and> get_array h' r = Some rs \<and> length rs = length bs \<and>
           (\<forall>k<length bs. length h \<le> rs ! k \<and> rs ! k < length h' \<and>
              h' ! (rs ! k) = Bar_sma (computeSMA bs per ! k))"
proof -
  have lb: "length bs = length elems" by (rule get_bars_length [OF bars])
  from map_h_ok [OF arr bars bars, of per 0]
  obtain rs h1 where m: "map_h h data per elems 0 = Some (rs, h1)"
    and e1: "extends h h1" and len: "length rs = length elems"
    and each: "\<forall>k<length elems. length h \<le> rs ! k \<and> rs ! k < length h1 \<and>
              h1 ! (rs ! k) = Bar_sma (computeSMA_entry bs per (bs ! k) (0 + k))"
    by blast
  let ?h' = "h1 @ [Array rs]"
  have c: "computeSMA_h h data per = Some (length h1, ?h')"
    using arr m by (simp add: computeSMA_h_def alloc_def)
  have e2: "extends h1 ?h'" by (simp add: extends_def)
  have l01: "length h \<le> length h1" using e1 by (simp add: extends_def)
  have "extends h ?h'" by (rule extends_trans [OF e1 e2])
  moreover have "get_array ?h' (length h1) = Some rs" by (simp add: get_array_def)
  moreover have "\<forall>k<length bs. length h \<le> rs ! k \<and> rs ! k < length ?h' \<and>
              ?h' ! (rs ! k) = Bar_sma (computeSMA bs per ! k)"
  proof (intro allI impI)
    fix k assume k: "k < length bs"
    with each lb have *: "length h \<le> rs ! k" "rs ! k < length h1"
       "h1 ! (rs ! k) = Bar_sma (computeSMA_entry bs per (bs ! k) (0 + k))" by simp_all
    have "?h' ! (rs ! k) = h1 ! (rs ! k)" using *(2) by (simp add: nth_append)
    with * k show "length h \<le> rs ! k \<and> rs ! k < length ?h' \<and>
              ?h' ! (rs ! k) = Bar_sma (computeSMA bs per ! k)"
      by (simp add: computeSMA_nth)
  qed
  ultimately have "computeSMA_h h data per = Some (length h1, ?h') \<and> extends h ?h' \<and>
           length h \<le> length h1 \<and> get_array ?h' (length h1) = Some rs \<and> length rs = length bs \<and>
           (\<forall>k<length bs. length h \<le> rs ! k \<and> rs ! k < length ?h' \<and>
              ?h' ! (rs ! k) = Bar_sma (computeSMA bs per ! k))"
    using c l01 len lb by simp
  then show ?thesis by (intro exI)
qed

lemma store3_reads: "get_array store3 3 = Some [0, 1, 2]" "get_bars store3 [0, 1, 2] = Some bars3"
  by (simp_all add: store3_def get_array_def get_bar_def bars3_def)

lemma entry_extend:
  "computeSMA_entry bs per b i = bar.extend b (bar_sma.fields (sma (computeSMA_entry bs per b i)))"
  by (simp add: computeSMA_entry_def Let_def sma_extend)

lemma computeSMA_truncate: "map bar.truncate (computeSMA bs per) = bs"
proof (rule nth_equalityI)
  show "length (map bar.truncate (computeSMA bs per)) = length bs"
    by (simp add: computeSMA_length)
next
  fix i assume "i < length (map bar.truncate (computeSMA bs per))"
  then have i: "i < length bs" by (simp add: computeSMA_length)
  have "bar.truncate (computeSMA_entry bs per (bs ! i) i) = bs ! i"
    by (subst entry_extend) (rule truncate_extend)
  with i show "map bar.truncate (computeSMA bs per) ! i = bs ! i"
    by (simp add: computeSMA_length computeSMA_nth)
qed

text \<open>
  Claim C9. The entries of the result, without their \<open>sma\<close>, are the bars of the
  input. On a store where \<open>data\<close> is an array of bars, \<open>computeSMA\<close> returns; every
  object that was in the store is unchanged, so the input array and its elements read as
  before; the result is an array at a new address, of the length of the input, and its
  element \<open>i\<close> is a new object with the fields of input element \<open>i\<close> and the one
  added field \<open>sma\<close>.
\<close>

theorem computeSMA_fresh_objects:
  "map bar.truncate (computeSMA bs per) = bs \<and>
   (get_array h data = Some elems \<and> get_bars h elems = Some bs \<longrightarrow>
     (\<exists>r h' rs. computeSMA_h h data per = Some (r, h') \<and>
        extends h h' \<and> get_array h' data = Some elems \<and> get_bars h' elems = Some bs \<and>
        length h \<le> r \<and> get_array h' r = Some rs \<and> length rs = length bs \<and>
        (\<forall>i<length bs. length h \<le> rs ! i \<and>
           h' ! (rs ! i) =
             Bar_sma (bar.extend (bs ! i) (bar_sma.fields (sma (computeSMA bs per ! i)))))))"
proof (intro conjI impI)
  show "map bar.truncate (computeSMA bs per) = bs" by (rule computeSMA_truncate)
next
  assume a: "get_array h data = Some elems \<and> get_bars h elems = Some bs"
  then have arr: "get_array h data = Some elems" and bars: "get_bars h elems = Some bs"
    by simp_all
  from computeSMA_h_ok [OF arr bars, of per]
  obtain r h' rs where c: "computeSMA_h h data per = Some (r, h')" and e: "extends h h'"
    and r: "length h \<le> r" "get_array h' r = Some rs" "length rs = length bs"
    and each: "\<forall>k<length bs. length h \<le> rs ! k \<and> rs ! k < length h' \<and>
              h' ! (rs ! k) = Bar_sma (computeSMA bs per ! k)"
    by blast
  have "\<forall>i<length bs. length h \<le> rs ! i \<and>
           h' ! (rs ! i) =
             Bar_sma (bar.extend (bs ! i) (bar_sma.fields (sma (computeSMA bs per ! i))))"
  proof (intro allI impI)
    fix i assume i: "i < length bs"
    have "computeSMA bs per ! i =
          bar.extend (bs ! i) (bar_sma.fields (sma (computeSMA bs per ! i)))"
      using i entry_extend [of bs per "bs ! i" i] by (simp add: computeSMA_nth)
    with each i show "length h \<le> rs ! i \<and>
           h' ! (rs ! i) =
             Bar_sma (bar.extend (bs ! i) (bar_sma.fields (sma (computeSMA bs per ! i))))"
      by simp
  qed
  with c e r get_array_extends [OF e arr] get_bars_extends [OF e bars]
  show "\<exists>r h' rs. computeSMA_h h data per = Some (r, h') \<and>
        extends h h' \<and> get_array h' data = Some elems \<and> get_bars h' elems = Some bs \<and>
        length h \<le> r \<and> get_array h' r = Some rs \<and> length rs = length bs \<and>
        (\<forall>i<length bs. length h \<le> rs ! i \<and>
           h' ! (rs ! i) =
             Bar_sma (bar.extend (bs ! i) (bar_sma.fields (sma (computeSMA bs per ! i)))))"
    by blast
qed

text \<open>
  The statement at the example store with period 2.
\<close>

theorem computeSMA_fresh_objects_witness:
  "get_array store3 3 = Some [0, 1, 2] \<and> get_bars store3 [0, 1, 2] = Some bars3 \<and>
   (\<exists>r h' rs. computeSMA_h store3 3 2 = Some (r, h') \<and>
        extends store3 h' \<and> get_array h' 3 = Some [0, 1, 2] \<and> get_bars h' [0, 1, 2] = Some bars3 \<and>
        length store3 \<le> r \<and> get_array h' r = Some rs \<and> length rs = length bars3 \<and>
        (\<forall>i<length bars3. length store3 \<le> rs ! i \<and>
           h' ! (rs ! i) =
             Bar_sma (bar.extend (bars3 ! i) (bar_sma.fields (sma (computeSMA bars3 2 ! i))))))"
proof -
  have a: "get_array store3 3 = Some [0, 1, 2] \<and> get_bars store3 [0, 1, 2] = Some bars3"
    using store3_reads by blast
  from computeSMA_fresh_objects [of bars3 2 store3 3 "[0, 1, 2]"] a show ?thesis by blast
qed

text \<open>
  Claim C4, as stated, at a series of one bar with the default period 20: the
  specification's moving average fails with \<open>InsufficientDataError\<close>, and \<open>computeSMA\<close>
  returns one entry whose \<open>sma\<close> is \<open>null\<close>.
\<close>

theorem computeSMA_short_series_counterexample:
  "length (take 1 bars3) < 20 \<and>
   map sma (computeSMA_default (take 1 bars3)) = [None] \<and>
   spec_SMA (map Close (take 1 bars3)) 20 = Inl InsufficientDataError \<and>
   Inr (map sma (computeSMA_default (take 1 bars3))) \<noteq> spec_SMA (map Close (take 1 bars3)) 20"
  by (simp add: bars3_def computeSMA_default_def computeSMA_def computeSMA_entry_def
      spec_SMA_def bar.defs bar_sma.defs)

text \<open>
  Claim C4, amended. For a series shorter than the period, \<open>computeSMA\<close> returns
  every bar with the \<open>sma\<close> \<open>null\<close>, and no error; and for every input and period
  it returns and leaves every object of the store unchanged, so that the input series
  reads as before.
\<close>

theorem computeSMA_short_series_all_null:
  "(int (length bs) < per \<longrightarrow>
      computeSMA bs per = map (\<lambda>d. bar.extend d (bar_sma.fields None)) bs) \<and>
   (get_array h data = Some elems \<and> get_bars h elems = Some bs \<longrightarrow>
      (\<exists>r h'. computeSMA_h h data per = Some (r, h') \<and> extends h h' \<and>
         get_array h' data = Some elems \<and> get_bars h' elems = Some bs))"
proof (intro conjI impI)
  assume short: "int (length bs) < per"
  show "computeSMA bs per = map (\<lambda>d. bar.extend d (bar_sma.fields None)) bs"
  proof (rule nth_equalityI)
    show "length (computeSMA bs per) = length (map (\<lambda>d. bar.extend d (bar_sma.fields None)) bs)"
      by (simp add: computeSMA_length)
  next
    fix i assume "i < length (computeSMA bs per)"
    then have i: "i < length bs" by (simp add: computeSMA_length)
    with short have "int i < per - 1" by simp
    with i show "computeSMA bs per ! i = map (\<lambda>d. bar.extend d (bar_sma.fields None)) bs ! i"
      by (simp add: computeSMA_nth entry_null)
  qed
next
  assume a: "get_array h data = Some elems \<and> get_bars h elems = Some bs"
  then have arr: "get_array h data = Some elems" and bars: "get_bars h elems = Some bs"
    by simp_all
  from computeSMA_h_ok [OF arr bars, of per]
  obtain r h' where c: "computeSMA_h h data per = Some (r, h')" and e: "extends h h'"
    by blast
  with get_array_extends [OF e arr] get_bars_extends [OF e bars]
  show "\<exists>r h'. computeSMA_h h data per = Some (r, h') \<and> extends h h' \<and>
         get_array h' data = Some elems \<and> get_bars h' elems = Some bs"
    by blast
qed

text \<open>
  The amended statement at the three example bars with period 20.
\<close>

theorem computeSMA_short_series_all_null_witness:
  "int (length bars3) < 20 \<and>
   computeSMA bars3 20 = map (\<lambda>d. bar.extend d (bar_sma.fields None)) bars3 \<and>
   get_array store3 3 = Some [0, 1, 2] \<and> get_bars store3 [0, 1, 2] = Some bars3 \<and>
   (\<exists>r h'. computeSMA_h store3 3 20 = Some (r, h') \<and> extends store3 h' \<and>
         get_array h' 3 = Some [0, 1, 2] \<and> get_bars h' [0, 1, 2] = Some bars3)"
proof -
  have s: "int (length bars3) < 20" by (simp add: bars3_def)
  have a: "get_array store3 3 = Some [0, 1, 2] \<and> get_bars store3 [0, 1, 2] = Some bars3"
    using store3_reads by blast
  from computeSMA_short_series_all_null [of bars3 20 store3 3 "[0, 1, 2]"] s a show ?thesis by blast
qed

section \<open>Portfolio view: results\<close>

lemma calculateTotalPnL_sum:
  "calculateTotalPnL pf =
     sum_list (map (\<lambda>q. (currentPrice q - avgPrice q) * shares q) (positions pf))"
proof -
  have f: "foldl (\<lambda>total position.
              total + calculatePnL (shares position) (avgPrice position) (currentPrice position))
       a qs = a + sum_list (map (\<lambda>q. (currentPrice q - avgPrice q) * shares q) qs)" for a qs
    by (induction qs arbitrary: a) (simp_all add: calculatePnL_def)
  show ?thesis unfolding calculateTotalPnL_def f by simp
qed

text \<open>
  Claim C1, as stated, at the state of the view: the total value shown, 100000, is not
  the cash plus the sum over the positions of shares times current price, 164654.
\<close>

theorem totalValue_not_derived_counterexample:
  "totalValue portfolio \<noteq> cash portfolio + sum_list (map currentValue (positions portfolio))"
  by (simp add: portfolio_def currentValue_def)

text \<open>
  Claim C1, amended. The total value and the cash that the view shows are the stored
  fields 100000 and 50000 of its state; the total is not derived from the cash and the
  positions, whose sum is 164654. What the view computes from the positions is the value
  of each, shares times current price, and the total profit, which is the sum of these
  values minus the sum of shares times average price.
\<close>

theorem portfolio_view_values:
  "totalValue portfolio = 100000 \<and> cash portfolio = 50000 \<and>
   cash portfolio + sum_list (map currentValue (positions portfolio)) = 164654 \<and>
   map snd (allocationData pf) = map (\<lambda>q. shares q * currentPrice q) (positions pf) \<and>
   calculateTotalPnL pf =
     sum_list (map currentValue (positions pf)) -
     sum_list (map (\<lambda>q. shares q * avgPrice q) (positions pf))"
proof -
  have "sum_list (map (\<lambda>q. (currentPrice q - avgPrice q) * shares q) qs) =
        sum_list (map currentValue qs) - sum_list (map (\<lambda>q. shares q * avgPrice q) qs)" for qs
    by (induction qs) (simp_all add: currentValue_def algebra_simps)
  then show ?thesis
    by (simp add: calculateTotalPnL_sum allocationData_def currentValue_def portfolio_def)
qed

section \<open>The equity and drawdown curves\<close>

lemma forEach_trades_Nil: "forEach_trades [] = curve_init"
  by (simp add: forEach_trades_def)

lemma forEach_trades_snoc: "forEach_trades (ts @ [t]) = forEach_body (forEach_trades ts) t"
  by (simp add: forEach_trades_def)

lemma sum_pnl_sum_list: "sum_pnl ts = sum_list (map pnl ts)"
proof -
  have "foldl (\<lambda>sum t. sum + pnl t) a ts = a + sum_list (map pnl ts)" for a
    by (induction ts arbitrary: a) simp_all
  then show ?thesis by (simp add: sum_pnl_def)
qed

lemma equity_forEach: "curve_vars.equity (forEach_trades ts) = 100000 + sum_list (map pnl ts)"
  by (induction ts rule: rev_induct)
     (simp_all add: forEach_trades_Nil forEach_trades_snoc curve_init_def forEach_body_def Let_def)

lemma length_equityData: "length (curve_vars.equityData (forEach_trades ts)) = length ts"
  by (induction ts rule: rev_induct)
     (simp_all add: forEach_trades_Nil forEach_trades_snoc curve_init_def forEach_body_def Let_def)

lemma length_drawdownData: "length (curve_vars.drawdownData (forEach_trades ts)) = length ts"
  by (induction ts rule: rev_induct)
     (simp_all add: forEach_trades_Nil forEach_trades_snoc curve_init_def forEach_body_def Let_def)

lemma maxEquity_body: "maxEquity (forEach_body v t) = max (maxEquity v) (curve_vars.equity (forEach_body v t))"
  by (simp add: forEach_body_def Let_def)

lemma maxEquity_foldl_ge: "maxEquity v \<le> maxEquity (foldl forEach_body v ts)"
proof (induction ts arbitrary: v)
  case Nil
  show ?case by simp
next
  case (Cons t ts)
  have "maxEquity v \<le> maxEquity (forEach_body v t)"
    by (simp add: maxEquity_body)
  also have "\<dots> \<le> maxEquity (foldl forEach_body (forEach_body v t) ts)"
    by (rule Cons.IH)
  finally show ?case by simp
qed

lemma maxEquity_ge_initial: "100000 \<le> maxEquity (forEach_trades ts)"
  using maxEquity_foldl_ge [of curve_init ts] by (simp add: forEach_trades_def curve_init_def)

lemma maxEquity_ge_equity: "curve_vars.equity (forEach_trades ts) \<le> maxEquity (forEach_trades ts)"
  by (induction ts rule: rev_induct)
     (simp_all add: forEach_trades_Nil forEach_trades_snoc curve_init_def forEach_body_def Let_def)

lemma equityData_nth:
  "i < length ts \<Longrightarrow>
   curve_vars.equityData (forEach_trades ts) ! i =
     \<lparr>equity_point.date = trade.date (ts ! i), equity = equity_at ts i\<rparr>"
proof (induction ts rule: rev_induct)
  case Nil
  then show ?case by simp
next
  case (snoc t ts)
  show ?case
  proof (cases "i < length ts")
    case True
    then show ?thesis using snoc.IH
      by (simp add: forEach_trades_snoc forEach_body_def Let_def nth_append length_equityData equity_at_def)
  next
    case False
    with snoc.prems have "i = length ts" by simp
    then show ?thesis
      by (simp add: forEach_trades_snoc forEach_body_def Let_def nth_append length_equityData equity_at_def)
  qed
qed

lemma drawdownData_nth:
  "i < length ts \<Longrightarrow>
   curve_vars.drawdownData (forEach_trades ts) ! i =
     \<lparr>drawdown_point.date = trade.date (ts ! i),
      drawdown = jsmul (jsdiv (Fin (equity_at ts i - peak_at ts i)) (Fin (peak_at ts i))) (Fin 100)\<rparr>"
proof (induction ts rule: rev_induct)
  case Nil
  then show ?case by simp
next
  case (snoc t ts)
  show ?case
  proof (cases "i < length ts")
    case True
    then show ?thesis using snoc.IH
      by (simp add: forEach_trades_snoc forEach_body_def Let_def nth_append length_drawdownData equity_at_def peak_at_def)
  next
    case False
    with snoc.prems have "i = length ts" by simp
    then show ?thesis
      by (simp add: forEach_trades_snoc forEach_body_def Let_def nth_append length_drawdownData equity_at_def peak_at_def)
  qed
qed

lemma equity_at_sum: "i < length ts \<Longrightarrow> equity_at ts i = 100000 + (\<Sum>j\<le>i. pnl (ts ! j))"
proof -
  assume i: "i < length ts"
  have "sum_list (map pnl (take (Suc i) ts)) = (\<Sum>j<Suc i. pnl (take (Suc i) ts ! j))"
    using i by (simp add: sum_list_sum_nth atLeast0LessThan)
  also have "\<dots> = (\<Sum>j<Suc i. pnl (ts ! j))"
    by (rule sum.cong) simp_all
  finally show ?thesis
    by (simp add: equity_at_def equity_forEach lessThan_Suc_atMost)
qed

lemma peak_at_Max:
  "i < length ts \<Longrightarrow> peak_at ts i = Max (insert 100000 (equity_at ts ` {..i}))"
proof (induction i)
  case 0
  then obtain t ts' where ts: "ts = t # ts'" by (cases ts) auto
  show ?case
    by (simp add: ts peak_at_def equity_at_def forEach_trades_def forEach_body_def Let_def curve_init_def max.commute)
next
  case (Suc i)
  then have i: "i < length ts" by simp
  have tk: "take (Suc (Suc i)) ts = take (Suc i) ts @ [ts ! Suc i]"
    using Suc.prems by (simp add: take_Suc_conv_app_nth)
  have "peak_at ts (Suc i) = max (peak_at ts i) (equity_at ts (Suc i))"
    unfolding peak_at_def equity_at_def tk forEach_trades_snoc maxEquity_body ..
  also have "\<dots> = max (Max (insert 100000 (equity_at ts ` {..i}))) (equity_at ts (Suc i))"
    using Suc.IH [OF i] by simp
  also have "\<dots> = Max (insert 100000 (equity_at ts ` {..Suc i}))"
    by (simp add: atMost_Suc max.commute insert_commute)
  finally show ?case .
qed

lemma peak_at_mono: "i \<le> j \<Longrightarrow> peak_at ts i \<le> peak_at ts j"
proof -
  assume ij: "i \<le> j"
  have "take (Suc i) (take (Suc j) ts) @ drop (Suc i) (take (Suc j) ts) = take (Suc j) ts"
    by (rule append_take_drop_id)
  moreover have "take (Suc i) (take (Suc j) ts) = take (Suc i) ts"
    using ij by (simp add: min_def)
  ultimately have "take (Suc j) ts = take (Suc i) ts @ drop (Suc i) (take (Suc j) ts)"
    by simp
  then have "forEach_trades (take (Suc j) ts) =
      foldl forEach_body (forEach_trades (take (Suc i) ts)) (drop (Suc i) (take (Suc j) ts))"
    by (metis foldl_append forEach_trades_def)
  then show ?thesis
    by (simp add: peak_at_def maxEquity_foldl_ge)
qed

lemma results_equityData: "results.equityData (mockResults s st p ts) = curve_vars.equityData (forEach_trades ts)"
  by (simp add: mockResults_def Let_def)

lemma results_drawdownData: "results.drawdownData (mockResults s st p ts) = curve_vars.drawdownData (forEach_trades ts)"
  by (simp add: mockResults_def Let_def)

lemma peak_at_pos: "100000 \<le> peak_at ts i"
  by (simp add: peak_at_def maxEquity_ge_initial)

lemma equity_le_peak: "equity_at ts i \<le> peak_at ts i"
  by (simp add: peak_at_def equity_at_def maxEquity_ge_equity)

lemma drawdown_value:
  assumes "i < length ts"
  shows "drawdown (curve_vars.drawdownData (forEach_trades ts) ! i) =
         Fin (100 * ((equity_at ts i - peak_at ts i) / peak_at ts i))"
proof -
  have "peak_at ts i \<noteq> 0" using peak_at_pos [of ts i] by simp
  then show ?thesis using assms by (simp add: drawdownData_nth)
qed

text \<open>
  Claim C10. The equity curve has one point per trade; the equity at point \<open>i\<close> is
  100000 plus the sum of the \<open>pnl\<close> of trades \<open>0..i\<close>; the running peak used for the
  drawdown at point \<open>i\<close> is the maximum of 100000 and the equities up to \<open>i\<close>, and
  it never decreases along the curve.
\<close>

theorem equity_curve_prefix_sum:
  "length (results.equityData (mockResults s st p ts)) = length ts \<and>
   (\<forall>i<length ts.
      equity_point.equity (results.equityData (mockResults s st p ts) ! i) =
        100000 + (\<Sum>j\<le>i. pnl (ts ! j)) \<and>
      peak_at ts i =
        Max (insert 100000
          ((\<lambda>j. equity_point.equity (results.equityData (mockResults s st p ts) ! j)) ` {..i}))) \<and>
   (\<forall>i j. i \<le> j \<longrightarrow> peak_at ts i \<le> peak_at ts j)"
proof (intro conjI allI impI)
  show "length (results.equityData (mockResults s st p ts)) = length ts"
    by (simp add: results_equityData length_equityData)
next
  fix i assume i: "i < length ts"
  show "equity_point.equity (results.equityData (mockResults s st p ts) ! i) =
        100000 + (\<Sum>j\<le>i. pnl (ts ! j))"
    using i by (simp add: results_equityData equityData_nth equity_at_sum)
  have "(\<lambda>j. equity_point.equity (results.equityData (mockResults s st p ts) ! j)) ` {..i} =
        equity_at ts ` {..i}"
    by (rule image_cong) (use i in \<open>simp_all add: results_equityData equityData_nth\<close>)
  then show "peak_at ts i =
        Max (insert 100000
          ((\<lambda>j. equity_point.equity (results.equityData (mockResults s st p ts) ! j)) ` {..i}))"
    using peak_at_Max [OF i] by simp
next
  fix i j :: nat assume "i \<le> j"
  then show "peak_at ts i \<le> peak_at ts j" by (rule peak_at_mono)
qed

text \<open>
  The statement at the trade list of the source, point 3: the equity there is 100100.
\<close>

theorem equity_curve_prefix_sum_witness:
  "(3::nat) < length trades \<and>
   length (results.equityData (mockResults ''AAPL'' ''sma_crossover'' ''1y'' trades)) = 6 \<and>
   equity_point.equity (results.equityData (mockResults ''AAPL'' ''sma_crossover'' ''1y'' trades) ! 3) = 100100 \<and>
   peak_at trades 3 =
     Max (insert 100000
       ((\<lambda>j. equity_point.equity (results.equityData (mockResults ''AAPL'' ''sma_crossover'' ''1y'' trades) ! j)) ` {..3})) \<and>
   peak_at trades 1 \<le> peak_at trades 3"
proof -
  note th = equity_curve_prefix_sum [of "''AAPL''" "''sma_crossover''" "''1y''" trades]
  have len: "length trades = 6" by (simp add: trades_def)
  then have lt: "(3::nat) < length trades" by simp
  have s: "(\<Sum>j\<le>3. pnl (trades ! j)) = 100" by (simp add: trades_def numeral_3_eq_3)
  from th len have a: "length (results.equityData (mockResults ''AAPL'' ''sma_crossover'' ''1y'' trades)) = 6"
    by metis
  from th lt have b:
    "equity_point.equity (results.equityData (mockResults ''AAPL'' ''sma_crossover'' ''1y'' trades) ! 3) =
       100000 + (\<Sum>j\<le>3. pnl (trades ! j)) \<and>
     peak_at trades 3 =
       Max (insert 100000
         ((\<lambda>j. equity_point.equity (results.equityData (mockResults ''AAPL'' ''sma_crossover'' ''1y'' trades) ! j)) ` {..3}))"
    by blast
  from th have c: "peak_at trades 1 \<le> peak_at trades 3" by simp
  from lt a b c show ?thesis unfolding s by simp
qed

text \<open>
  Claim C2, as stated, at the trade list of the source: the drawdown value at point 3 is
  not the fraction \<open>(equity - max) / max\<close> of the equity curve (it is that fraction
  times 100).
\<close>

theorem drawdown_curve_fraction_counterexample:
  "drawdown (results.drawdownData (runBacktest ''AAPL'' ''sma_crossover'' ''1y'') ! 3) \<noteq>
   Fin (spec_drawdown (map equity_point.equity
          (results.equityData (runBacktest ''AAPL'' ''sma_crossover'' ''1y''))) 3)"
  by (simp add: runBacktest_def mockResults_def forEach_trades_def forEach_body_def
    trades_def curve_init_def Let_def spec_drawdown_def)

text \<open>
  Claim C2, amended. The drawdown curve has one point per trade and its value at point
  \<open>i\<close> is the percentage \<open>100 * (equity(i) - peak(i)) / peak(i)\<close>, where \<open>peak(i)\<close> is
  the maximum of the initial capital 100000 and the equities up to \<open>i\<close>; every value is
  at most 0; the value at the first point is 0 when the first trade has a \<open>pnl\<close> of at
  least 0.
\<close>

theorem drawdown_curve_percent:
  "length (results.drawdownData (mockResults s st p ts)) = length ts \<and>
   (\<forall>i<length ts.
      drawdown (results.drawdownData (mockResults s st p ts) ! i) =
        Fin (100 * ((equity_at ts i - peak_at ts i) / peak_at ts i)) \<and>
      equity_at ts i = equity_point.equity (results.equityData (mockResults s st p ts) ! i) \<and>
      peak_at ts i = Max (insert 100000 (equity_at ts ` {..i})) \<and>
      100 * ((equity_at ts i - peak_at ts i) / peak_at ts i) \<le> 0) \<and>
   (ts \<noteq> [] \<and> 0 \<le> pnl (ts ! 0) \<longrightarrow>
      drawdown (results.drawdownData (mockResults s st p ts) ! 0) = Fin 0)"
proof (intro conjI allI impI)
  show "length (results.drawdownData (mockResults s st p ts)) = length ts"
    by (simp add: results_drawdownData length_drawdownData)
next
  fix i assume i: "i < length ts"
  show "drawdown (results.drawdownData (mockResults s st p ts) ! i) =
        Fin (100 * ((equity_at ts i - peak_at ts i) / peak_at ts i))"
    using i by (simp add: results_drawdownData drawdown_value)
  show "equity_at ts i = equity_point.equity (results.equityData (mockResults s st p ts) ! i)"
    using i by (simp add: results_equityData equityData_nth)
  show "peak_at ts i = Max (insert 100000 (equity_at ts ` {..i}))"
    using i by (rule peak_at_Max)
  have "0 < peak_at ts i" using peak_at_pos [of ts i] by simp
  moreover have "equity_at ts i - peak_at ts i \<le> 0" using equity_le_peak [of ts i] by simp
  ultimately show "100 * ((equity_at ts i - peak_at ts i) / peak_at ts i) \<le> 0"
    by (simp add: divide_le_0_iff)
next
  assume a: "ts \<noteq> [] \<and> 0 \<le> pnl (ts ! 0)"
  then obtain t ts' where ts: "ts = t # ts'" by (cases ts) auto
  with a have "0 \<le> pnl t" by simp
  then have "equity_at ts 0 = peak_at ts 0"
    by (simp add: ts equity_at_def peak_at_def forEach_trades_def forEach_body_def Let_def curve_init_def)
  moreover have "0 < length ts" using a by simp
  ultimately show "drawdown (results.drawdownData (mockResults s st p ts) ! 0) = Fin 0"
    by (simp add: results_drawdownData drawdown_value)
qed

text \<open>
  The amended statement at the trade list of the source: points 3 and 0.
\<close>

theorem drawdown_curve_percent_witness:
  "drawdown (results.drawdownData (mockResults ''AAPL'' ''sma_crossover'' ''1y'' trades) ! 3) =
     Fin (100 * ((100100 - 100500) / 100500)) \<and>
   drawdown (results.drawdownData (mockResults ''AAPL'' ''sma_crossover'' ''1y'' trades) ! 0) = Fin 0"
proof -
  have len: "length trades = 6" by (simp add: trades_def)
  have ne: "trades \<noteq> [] \<and> 0 \<le> pnl (trades ! 0)" by (simp add: trades_def)
  have e: "equity_at trades 3 = 100100"
    by (simp add: equity_at_def forEach_trades_def forEach_body_def trades_def curve_init_def Let_def)
  have m: "peak_at trades 3 = 100500"
    by (simp add: peak_at_def forEach_trades_def forEach_body_def trades_def curve_init_def Let_def)
  show ?thesis
    using drawdown_curve_percent [of "''AAPL''" "''sma_crossover''" "''1y''" trades] len ne e m by simp
qed

section \<open>The metrics of the result\<close>

lemma sum_list_neg_iff:
  fixes xs :: "real list"
  assumes "\<forall>x\<in>set xs. x < 0"
  shows "sum_list xs < 0 \<longleftrightarrow> xs \<noteq> []" and "sum_list xs \<le> 0"
  using assms by (induction xs) (auto simp: add_neg_neg add_nonpos_nonpos less_imp_le)

lemma sum_list_pos_iff:
  fixes xs :: "real list"
  assumes "\<forall>x\<in>set xs. 0 < x"
  shows "0 < sum_list xs \<longleftrightarrow> xs \<noteq> []" and "0 \<le> sum_list xs"
  using assms by (induction xs) (auto simp: add_pos_pos add_nonneg_nonneg less_imp_le)

lemma losing_sum: "sum_list (map pnl (losing ts)) < 0 \<longleftrightarrow> (\<exists>t\<in>set ts. pnl t < 0)"
  "sum_list (map pnl (losing ts)) \<le> 0"
proof -
  have a: "\<forall>x\<in>set (map pnl (losing ts)). x < 0" by (auto simp: losing_def)
  have "map pnl (losing ts) \<noteq> [] \<longleftrightarrow> (\<exists>t\<in>set ts. pnl t < 0)"
    by (auto simp: losing_def filter_empty_conv)
  with sum_list_neg_iff(1) [OF a] show "sum_list (map pnl (losing ts)) < 0 \<longleftrightarrow> (\<exists>t\<in>set ts. pnl t < 0)"
    by simp
  show "sum_list (map pnl (losing ts)) \<le> 0" by (rule sum_list_neg_iff(2) [OF a])
qed

lemma winning_sum: "0 < sum_list (map pnl (winning ts)) \<longleftrightarrow> (\<exists>t\<in>set ts. 0 < pnl t)"
  "0 \<le> sum_list (map pnl (winning ts))"
proof -
  have a: "\<forall>x\<in>set (map pnl (winning ts)). 0 < x" by (auto simp: winning_def)
  have "map pnl (winning ts) \<noteq> [] \<longleftrightarrow> (\<exists>t\<in>set ts. 0 < pnl t)"
    by (auto simp: winning_def filter_empty_conv)
  with sum_list_pos_iff(1) [OF a] show "0 < sum_list (map pnl (winning ts)) \<longleftrightarrow> (\<exists>t\<in>set ts. 0 < pnl t)"
    by simp
  show "0 \<le> sum_list (map pnl (winning ts))" by (rule sum_list_pos_iff(2) [OF a])
qed

lemma profitFactor_unfold:
  "profitFactor (mockResults s st p ts) =
   js_or (Math_abs (jsdiv (Fin (sum_list (map pnl (winning ts)))) (Fin (sum_list (map pnl (losing ts)))))) (Fin 0)"
  by (simp add: mockResults_def Let_def sum_pnl_sum_list)

text \<open>
  Claim C5, as stated, at the trade list of the source (two winning trades, three
  closing trades, six trades): the reported win rate is \<open>100 / 3\<close>, which is neither
  \<open>2 / 3\<close> nor that ratio as a percentage.
\<close>

theorem winRate_closing_trades_counterexample:
  "winRate (runBacktest ''AAPL'' ''sma_crossover'' ''1y'') \<noteq> Fin (spec_winRate trades) \<and>
   winRate (runBacktest ''AAPL'' ''sma_crossover'' ''1y'') \<noteq> Fin (100 * spec_winRate trades)"
  by (simp add: runBacktest_def mockResults_def forEach_trades_def forEach_body_def
    trades_def curve_init_def Let_def spec_winRate_def winning_def closing_def)

text \<open>
  Claim C5, amended. For every result with at least one trade, the reported win rate is
  the percentage \<open>100 * count(pnl > 0) / count(all trades)\<close>: the opening trades are
  counted in the denominator.
\<close>

theorem winRate_over_all_trades:
  "ts \<noteq> [] \<Longrightarrow>
   winRate (mockResults s st p ts) = Fin (100 * (real (length (winning ts)) / real (length ts)))"
  by (simp add: mockResults_def Let_def)

text \<open>
  The amended statement at the trade list of the source.
\<close>

theorem winRate_over_all_trades_witness:
  "trades \<noteq> [] \<and>
   winRate (mockResults ''AAPL'' ''sma_crossover'' ''1y'' trades) =
     Fin (100 * (real (length (winning trades)) / real (length trades)))"
proof -
  have ne: "trades \<noteq> []" by (simp add: trades_def)
  from winRate_over_all_trades [OF ne] ne show ?thesis by simp
qed

lemma real_ledger_returns:
  "period_returns (map equity_point.equity
       (results.equityData (runBacktest ''AAPL'' ''sma_crossover'' ''1y''))) =
   [1 / 200, 0, - (4 / 1005), 0, 15 / 1001]"
  by (simp add: runBacktest_def mockResults_def forEach_trades_def forEach_body_def trades_def
      curve_init_def Let_def period_returns_def)

lemma real_ledger_mean: "mean [1 / 200, 0, - (4 / 1005), 0, 15 / 1001] = 644041 / 201201000"
  by (simp add: mean_def)

lemma real_ledger_stdev:
  "stdev [1 / 200, 0, - (4 / 1005), 0, 15 / 1001] = sqrt (433480382581 / 10120460600250000)"
  by (simp add: stdev_def real_ledger_mean power2_eq_square)

lemma sharpe_square:
  fixes M V x c :: real
  assumes "0 < V" and "M \<noteq> 0" and "0 \<le> x" and "M / sqrt V * sqrt x = c"
  shows "x = c\<^sup>2 * V / M\<^sup>2"
proof -
  have "(M / sqrt V * sqrt x)\<^sup>2 = M\<^sup>2 / V * x"
    using assms(1,3) by (simp add: power_mult_distrib power_divide)
  with assms(4) have "M\<^sup>2 / V * x = c\<^sup>2" by simp
  with assms(1,2) show ?thesis by (simp add: field_simps)
qed

text \<open>
  Claim C6, as stated, at the trade list of the source. Its period returns are
  \<open>1/200\<close>, 0, \<open>-4/1005\<close>, 0 and \<open>15/1001\<close>, with a deviation that is not 0, so the
  specification's Sharpe ratio is the quotient of their mean and deviation times the
  root of the periods per year. The reported 1.45 would need
  \<open>364557001750621 / 41478880968100\<close> periods per year, a number between 8 and 9: for no
  whole number of periods per year (252 trading days, 52 weeks, 12 months) is the
  reported ratio the specification's.
\<close>

theorem sharpeRatio_formula_counterexample:
  "\<forall>n::nat.
     spec_sharpeRatio (period_returns (map equity_point.equity
       (results.equityData (runBacktest ''AAPL'' ''sma_crossover'' ''1y'')))) (real n) \<noteq>
     Some (sharpeRatio (runBacktest ''AAPL'' ''sma_crossover'' ''1y''))"
proof
  fix n :: nat
  let ?M = "644041 / 201201000 :: real" and ?V = "433480382581 / 10120460600250000 :: real"
  have sr: "sharpeRatio (runBacktest ''AAPL'' ''sma_crossover'' ''1y'') = 29 / 20"
    by (simp add: runBacktest_def mockResults_def Let_def)
  have "?M / sqrt ?V * sqrt (real n) \<noteq> 29 / 20"
  proof
    assume eq: "?M / sqrt ?V * sqrt (real n) = 29 / 20"
    have "real n = (29 / 20)\<^sup>2 * ?V / ?M\<^sup>2"
      by (rule sharpe_square [OF _ _ _ eq]) simp_all
    then have "real n = 364557001750621 / 41478880968100"
      by (simp add: power2_eq_square)
    then have "8 < real n" and "real n < 9" by simp_all
    then have "8 < n" and "n < 9" by simp_all
    then show False by simp
  qed
  then show "spec_sharpeRatio (period_returns (map equity_point.equity
       (results.equityData (runBacktest ''AAPL'' ''sma_crossover'' ''1y'')))) (real n) \<noteq>
     Some (sharpeRatio (runBacktest ''AAPL'' ''sma_crossover'' ''1y''))"
    unfolding real_ledger_returns sr
    by (simp add: spec_sharpeRatio_def real_ledger_mean real_ledger_stdev)
qed

text \<open>
  Claim C6, amended. For every result the reported Sharpe ratio is the constant 1.45,
  whatever the trades and the returns; it is never \<open>null\<close>.
\<close>

theorem sharpeRatio_constant: "sharpeRatio (mockResults s st p ts) = 1.45"
  by (simp add: mockResults_def Let_def)

text \<open>
  Claim C7, as stated, at the trade list of the source: the reported total return is
  1600, the fraction of the initial equity is \<open>0.016\<close>.
\<close>

theorem totalReturn_fraction_counterexample:
  "totalReturn (runBacktest ''AAPL'' ''sma_crossover'' ''1y'') \<noteq>
   spec_totalReturn (finalCapital (runBacktest ''AAPL'' ''sma_crossover'' ''1y''))
     (initialCapital (runBacktest ''AAPL'' ''sma_crossover'' ''1y''))"
  by (simp add: runBacktest_def mockResults_def forEach_trades_def forEach_body_def
    trades_def curve_init_def Let_def spec_totalReturn_def)

text \<open>
  Claim C7, amended. The reported \<open>totalReturn\<close> is the absolute difference
  \<open>final_equity - initial_equity\<close> in currency, with the initial equity 100000 and the
  final equity 100000 plus the sum of all \<open>pnl\<close>; the fraction of the initial equity is
  reported, times 100, as \<open>totalReturnPercentage\<close>.
\<close>

theorem totalReturn_absolute:
  "totalReturn (mockResults s st p ts) =
     finalCapital (mockResults s st p ts) - initialCapital (mockResults s st p ts) \<and>
   totalReturnPercentage (mockResults s st p ts) =
     Fin (100 * spec_totalReturn (finalCapital (mockResults s st p ts))
                  (initialCapital (mockResults s st p ts))) \<and>
   initialCapital (mockResults s st p ts) = 100000 \<and>
   finalCapital (mockResults s st p ts) = 100000 + sum_list (map pnl ts)"
  by (simp add: mockResults_def Let_def spec_totalReturn_def equity_forEach)

text \<open>
  Claim C8. When some trade loses, the reported profit factor is the sum of the winning
  \<open>pnl\<close> divided by the absolute value of the sum of the losing \<open>pnl\<close>; when some trade
  wins and none loses it is \<open>Infinity\<close>; in both cases it is the specification's
  quotient in the arithmetic of the language. Where no trade wins or loses, the quotient
  is \<open>0 / 0\<close> and the result reports 0.
\<close>

theorem profitFactor_value:
  "((\<exists>t\<in>set ts. pnl t < 0) \<longrightarrow>
      profitFactor (mockResults s st p ts) =
        Fin (sum_list (map pnl (winning ts)) / \<bar>sum_list (map pnl (losing ts))\<bar>)) \<and>
   ((\<exists>t\<in>set ts. 0 < pnl t) \<and> \<not> (\<exists>t\<in>set ts. pnl t < 0) \<longrightarrow>
      profitFactor (mockResults s st p ts) = PInf) \<and>
   ((\<exists>t\<in>set ts. pnl t \<noteq> 0) \<longrightarrow>
      profitFactor (mockResults s st p ts) = spec_profitFactor ts) \<and>
   (\<not> (\<exists>t\<in>set ts. pnl t \<noteq> 0) \<longrightarrow> profitFactor (mockResults s st p ts) = Fin 0)"
proof -
  let ?w = "sum_list (map pnl (winning ts))" and ?l = "sum_list (map pnl (losing ts))"
  have w0: "0 \<le> ?w" by (rule winning_sum(2))
  have l0: "?l \<le> 0" by (rule losing_sum(2))
  have A: "profitFactor (mockResults s st p ts) = Fin (?w / \<bar>?l\<bar>)" if "\<exists>t\<in>set ts. pnl t < 0"
  proof -
    from that have l: "?l < 0" by (simp add: losing_sum(1))
    have eq: "\<bar>?w / ?l\<bar> = ?w / \<bar>?l\<bar>" using w0 by (simp add: abs_divide)
    show ?thesis using l w0 by (simp add: profitFactor_unfold js_or_def eq)
  qed
  have B: "profitFactor (mockResults s st p ts) = PInf"
    if "(\<exists>t\<in>set ts. 0 < pnl t) \<and> \<not> (\<exists>t\<in>set ts. pnl t < 0)"
  proof -
    from that have w: "0 < ?w" by (simp add: winning_sum(1))
    from that l0 have l: "?l = 0" using losing_sum(1) [of ts] by auto
    show ?thesis using w l by (simp add: profitFactor_unfold js_or_def)
  qed
  have specA: "spec_profitFactor ts = Fin (?w / \<bar>?l\<bar>)" if "\<exists>t\<in>set ts. pnl t < 0"
    using that losing_sum(1) [of ts] by (simp add: spec_profitFactor_def)
  have specB: "spec_profitFactor ts = PInf"
    if "(\<exists>t\<in>set ts. 0 < pnl t) \<and> \<not> (\<exists>t\<in>set ts. pnl t < 0)"
  proof -
    from that have w: "0 < ?w" by (simp add: winning_sum(1))
    from that l0 have l: "?l = 0" using losing_sum(1) [of ts] by auto
    show ?thesis using w l by (simp add: spec_profitFactor_def)
  qed
  have C: "profitFactor (mockResults s st p ts) = spec_profitFactor ts" if "\<exists>t\<in>set ts. pnl t \<noteq> 0"
  proof (cases "\<exists>t\<in>set ts. pnl t < 0")
    case True
    then show ?thesis by (simp add: A specA)
  next
    case False
    with that have "(\<exists>t\<in>set ts. 0 < pnl t) \<and> \<not> (\<exists>t\<in>set ts. pnl t < 0)"
      by (metis linorder_neqE_linordered_idom)
    then show ?thesis by (simp add: B specB)
  qed
  have D: "profitFactor (mockResults s st p ts) = Fin 0" if "\<not> (\<exists>t\<in>set ts. pnl t \<noteq> 0)"
  proof -
    from that have "\<not> (\<exists>t\<in>set ts. 0 < pnl t)" and "\<not> (\<exists>t\<in>set ts. pnl t < 0)" by auto
    then have "?w = 0" and "?l = 0"
      using winning_sum [of ts] losing_sum [of ts] by auto
    then show ?thesis by (simp add: profitFactor_unfold js_or_def)
  qed
  from A B C D show ?thesis by blast
qed

text \<open>
  The statement at the trade list of the source (profit factor 5), at its first two
  trades (a win and no loss) and at its first trade alone (neither).
\<close>

theorem profitFactor_value_witness:
  "profitFactor (mockResults ''AAPL'' ''sma_crossover'' ''1y'' trades) = Fin 5 \<and>
   profitFactor (mockResults ''AAPL'' ''sma_crossover'' ''1y'' trades) = spec_profitFactor trades \<and>
   profitFactor (mockResults ''AAPL'' ''sma_crossover'' ''1y'' (take 2 trades)) = PInf \<and>
   profitFactor (mockResults ''AAPL'' ''sma_crossover'' ''1y'' (take 1 trades)) = Fin 0"
proof -
  have l: "\<exists>t\<in>set trades. pnl t < 0" by (simp add: trades_def)
  have n: "\<exists>t\<in>set trades. pnl t \<noteq> 0" by (simp add: trades_def)
  have v: "sum_list (map pnl (winning trades)) / \<bar>sum_list (map pnl (losing trades))\<bar> = 5"
    by (simp add: trades_def winning_def losing_def)
  have w: "(\<exists>t\<in>set (take 2 trades). 0 < pnl t) \<and> \<not> (\<exists>t\<in>set (take 2 trades). pnl t < 0)"
    by (simp add: trades_def)
  have z: "\<not> (\<exists>t\<in>set (take 1 trades). pnl t \<noteq> 0)" by (simp add: trades_def)
  from profitFactor_value [of trades "''AAPL''" "''sma_crossover''" "''1y''"] l n v
  have 1: "profitFactor (mockResults ''AAPL'' ''sma_crossover'' ''1y'' trades) = Fin 5"
    and 2: "profitFactor (mockResults ''AAPL'' ''sma_crossover'' ''1y'' trades) = spec_profitFactor trades"
    by metis+
  from profitFactor_value [of "take 2 trades" "''AAPL''" "''sma_crossover''" "''1y''"] w
  have 3: "profitFactor (mockResults ''AAPL'' ''sma_crossover'' ''1y'' (take 2 trades)) = PInf"
    by blast
  from profitFactor_value [of "take 1 trades" "''AAPL''" "''sma_crossover''" "''1y''"] z
  have 4: "profitFactor (mockResults ''AAPL'' ''sma_crossover'' ''1y'' (take 1 trades)) = Fin 0"
    by blast
  from 1 2 3 4 show ?thesis by simp
qed

end
